theory Spec2Isabelle
  imports Complex_Main "HOL-Library.Sublist"
begin

section \<open>The JavaScript values the metrics bridge computes with\<close>

subsection \<open>Strings\<close>

text \<open>
  A text is a list of 8-bit characters, read as the code units 0..255 of a JavaScript
  string (ASCII and Latin-1). Every pattern and keyword of the bridge is ASCII.
  A text with a code unit above 255 is outside this model; the string values that
  \<open>JSON.parse\<close> builds from a text may hold such code units and are lists of numbers.
\<close>

definition code :: "char \<Rightarrow> nat" where
  "code c = of_char c"

definition lower_char :: "char \<Rightarrow> char" where
  "lower_char c =
     (if (65 \<le> code c \<and> code c \<le> 90) \<or> (192 \<le> code c \<and> code c \<le> 222 \<and> code c \<noteq> 215)
      then char_of (code c + 32) else c)"

definition upper_char :: "char \<Rightarrow> char" where
  "upper_char c =
     (if (97 \<le> code c \<and> code c \<le> 122) \<or> (224 \<le> code c \<and> code c \<le> 254 \<and> code c \<noteq> 247)
      then char_of (code c - 32) else c)"

definition toLowerCase :: "string \<Rightarrow> string" where
  "toLowerCase s = map lower_char s"

text \<open>
  \<open>toUpperCase\<close> is applied by the bridge to the unit letter of the swap pattern only
  (one of M, G, m, g). The three Latin-1 letters whose upper case is not one 8-bit
  character are kept as they are.
\<close>

definition toUpperCase :: "string \<Rightarrow> string" where
  "toUpperCase s = map upper_char s"

fun startsWith :: "string \<Rightarrow> string \<Rightarrow> bool" where
  "startsWith s [] = True"
| "startsWith [] (p # ps) = False"
| "startsWith (c # cs) (p # ps) = (c = p \<and> startsWith cs ps)"

text \<open>\<open>s.includes(t)\<close>: \<open>t\<close> occurs in \<open>s\<close> as a contiguous run of characters.\<close>

fun String_includes :: "string \<Rightarrow> string \<Rightarrow> bool" where
  "String_includes [] t = (t = [])"
| "String_includes (c # cs) t = (startsWith (c # cs) t \<or> String_includes cs t)"

subsection \<open>Numbers\<close>

text \<open>
  A JavaScript number is a finite value, NaN or an infinity. A finite value is modelled
  by the real it denotes: a decimal text that exceeds the binary64 range becomes an
  infinity as in JavaScript, the rounding of the mantissa to 53 bits is not modelled,
  and the two zeros are one value. Every number evaluated below (2.5, 512 / 1024, 22.5,
  87, 97.5, 150) is a binary64 value, and no general statement depends on the rounding.
\<close>

datatype number = Finite real | NaN | PosInf | NegInf

definition Number_isFinite :: "number \<Rightarrow> bool" where
  "Number_isFinite n = (case n of Finite v \<Rightarrow> True | _ \<Rightarrow> False)"

text \<open>The least magnitude that rounds to an infinity: the largest binary64 plus half an ulp.\<close>

definition OVERFLOW :: real where
  "OVERFLOW = 2 ^ 1024 - 2 ^ 970"

definition toNumber :: "real \<Rightarrow> number" where
  "toNumber v = (if OVERFLOW \<le> v then PosInf else if v \<le> - OVERFLOW then NegInf else Finite v)"

fun number_le :: "number \<Rightarrow> number \<Rightarrow> bool" where
  "number_le NaN b = False"
| "number_le a NaN = False"
| "number_le NegInf b = True"
| "number_le a PosInf = True"
| "number_le (Finite x) (Finite y) = (x \<le> y)"
| "number_le a b = False"

text \<open>\<open>a >= b\<close> and \<open>a <= b\<close> of JavaScript.\<close>

definition js_ge :: "number \<Rightarrow> number \<Rightarrow> bool" where
  "js_ge a b = number_le b a"

definition js_le :: "number \<Rightarrow> number \<Rightarrow> bool" where
  "js_le a b = number_le a b"

text \<open>\<open>a / d\<close> for a positive finite divisor \<open>d\<close>.\<close>

fun divide_by :: "number \<Rightarrow> real \<Rightarrow> number" where
  "divide_by (Finite x) d = Finite (x / d)"
| "divide_by NaN d = NaN"
| "divide_by PosInf d = PosInf"
| "divide_by NegInf d = NegInf"

fun max2 :: "number \<Rightarrow> number \<Rightarrow> number" where
  "max2 NaN b = NaN"
| "max2 a NaN = NaN"
| "max2 PosInf b = PosInf"
| "max2 a PosInf = PosInf"
| "max2 NegInf b = b"
| "max2 a NegInf = a"
| "max2 (Finite x) (Finite y) = Finite (max x y)"

text \<open>\<open>Math.max(...xs)\<close>: minus infinity for no argument, NaN as soon as one argument is NaN.\<close>

definition Math_max :: "number list \<Rightarrow> number" where
  "Math_max xs = foldl max2 NegInf xs"

subsection \<open>Number(text): the conversion of a string to a number\<close>

definition isDigit :: "char \<Rightarrow> bool" where
  "isDigit c = (48 \<le> code c \<and> code c \<le> 57)"

text \<open>White space of JavaScript within the 8-bit range: TAB, LF, VT, FF, CR, space, NBSP.\<close>

definition isSpace :: "char \<Rightarrow> bool" where
  "isSpace c = (code c \<in> {9, 10, 11, 12, 13, 32, 160})"

definition trim :: "string \<Rightarrow> string" where
  "trim s = rev (dropWhile isSpace (rev (dropWhile isSpace s)))"

definition digitsVal :: "string \<Rightarrow> nat" where
  "digitsVal ds = foldl (\<lambda>acc c. 10 * acc + (code c - 48)) 0 ds"

definition scale10 :: "nat \<Rightarrow> int \<Rightarrow> real" where
  "scale10 m e = (if 0 \<le> e then of_nat m * 10 ^ nat e else of_nat m / 10 ^ nat (- e))"

text \<open>The exponent part of a decimal literal: nothing, or e/E, an optional sign and digits.\<close>

definition exponentPart :: "string \<Rightarrow> int option" where
  "exponentPart s =
     (case s of
        [] \<Rightarrow> Some 0
      | c # r \<Rightarrow>
          if c = CHR ''e'' \<or> c = CHR ''E'' then
            (let neg = startsWith r ''-'';
                 ds = (if startsWith r ''-'' \<or> startsWith r ''+'' then tl r else r)
             in if ds \<noteq> [] \<and> list_all isDigit ds
                then Some (if neg then - int (digitsVal ds) else int (digitsVal ds))
                else None)
          else None)"

text \<open>
  An unsigned decimal literal: digits, an optional point with digits, an optional
  exponent; at least one digit before or after the point.
\<close>

definition unsignedDecimal :: "string \<Rightarrow> real option" where
  "unsignedDecimal s =
     (let ip = takeWhile isDigit s;
          r1 = dropWhile isDigit s;
          fp = (if startsWith r1 ''.'' then takeWhile isDigit (tl r1) else []);
          r2 = (if startsWith r1 ''.'' then dropWhile isDigit (tl r1) else r1)
      in if ip = [] \<and> fp = [] then None
         else (case exponentPart r2 of
                 None \<Rightarrow> None
               | Some e \<Rightarrow> Some (scale10 (digitsVal (ip @ fp)) (e - int (length fp)))))"

definition radixDigit :: "char \<Rightarrow> nat option" where
  "radixDigit c =
     (if isDigit c then Some (code c - 48)
      else if 97 \<le> code c \<and> code c \<le> 102 then Some (code c - 87)
      else if 65 \<le> code c \<and> code c \<le> 70 then Some (code c - 55)
      else None)"

definition radixVal :: "nat \<Rightarrow> string \<Rightarrow> number" where
  "radixVal b ds =
     (if ds \<noteq> [] \<and> list_all (\<lambda>c. case radixDigit c of None \<Rightarrow> False | Some d \<Rightarrow> d < b) ds
      then toNumber (of_nat (foldl (\<lambda>acc c. b * acc + the (radixDigit c)) 0 ds))
      else NaN)"

definition Number :: "string \<Rightarrow> number" where
  "Number s =
     (let t = trim s in
      if t = [] then Finite 0
      else if startsWith t ''0x'' \<or> startsWith t ''0X'' then radixVal 16 (drop 2 t)
      else if startsWith t ''0o'' \<or> startsWith t ''0O'' then radixVal 8 (drop 2 t)
      else if startsWith t ''0b'' \<or> startsWith t ''0B'' then radixVal 2 (drop 2 t)
      else
        (let neg = startsWith t ''-'';
             u = (if startsWith t ''-'' \<or> startsWith t ''+'' then tl t else t)
         in if u = ''Infinity'' then (if neg then NegInf else PosInf)
            else (case unsignedDecimal u of
                    None \<Rightarrow> NaN
                  | Some v \<Rightarrow> toNumber (if neg then - v else v))))"

subsection \<open>Regular expressions\<close>

text \<open>
  Every pattern of the bridge is a sequence of pieces: a literal character or a
  character class, taken once or under \<open>*\<close> or \<open>+\<close>, possibly inside a capture group,
  and the word boundary \<open>\b\<close>. Every pattern carries the flag \<open>i\<close> and no other flag.
\<close>

datatype cclass = Space | DigitDot | Letter | MG

datatype atom = Chr char | Cls cclass

datatype quant = One | Star | Plus

datatype piece = Match quant atom | Capture quant atom | WordBoundary

type_synonym regex = "piece list"

definition isLetter :: "char \<Rightarrow> bool" where
  "isLetter c = ((65 \<le> code c \<and> code c \<le> 90) \<or> (97 \<le> code c \<and> code c \<le> 122))"

definition isDigitDot :: "char \<Rightarrow> bool" where
  "isDigitDot c = (isDigit c \<or> c = CHR ''.'')"

text \<open>The word characters of \<open>\b\<close>: ASCII letters, digits and the underscore.\<close>

definition isWord :: "char \<Rightarrow> bool" where
  "isWord c = (isLetter c \<or> isDigit c \<or> c = CHR ''_'')"

text \<open>
  Under the flag \<open>i\<close> two characters match when their canonical (upper-case) forms are
  equal; \<open>\s\<close> is white space, \<open>[0-9.]\<close> a digit or the point, \<open>[A-Za-z]\<close> an ASCII
  letter, \<open>[MG]\<close> one of M, G, m, g.
\<close>

fun atom_matches :: "atom \<Rightarrow> char \<Rightarrow> bool" where
  "atom_matches (Chr p) c = (upper_char c = upper_char p)"
| "atom_matches (Cls Space) c = isSpace c"
| "atom_matches (Cls DigitDot) c = isDigitDot c"
| "atom_matches (Cls Letter) c = isLetter c"
| "atom_matches (Cls MG) c = (upper_char c = CHR ''M'' \<or> upper_char c = CHR ''G'')"

text \<open>
  The lengths a quantified atom may consume at the head of \<open>s\<close>, in the order the
  backtracking matcher tries them: the quantifiers are greedy, so the longest first.
\<close>

definition run_length :: "atom \<Rightarrow> string \<Rightarrow> nat" where
  "run_length a s = length (takeWhile (atom_matches a) s)"

fun lens :: "quant \<Rightarrow> atom \<Rightarrow> string \<Rightarrow> nat list" where
  "lens One a s = (if 1 \<le> run_length a s then [1] else [])"
| "lens Star a s = rev [0..<Suc (run_length a s)]"
| "lens Plus a s = rev [1..<Suc (run_length a s)]"

fun firstSome :: "('a \<Rightarrow> 'b option) \<Rightarrow> 'a list \<Rightarrow> 'b option" where
  "firstSome f [] = None"
| "firstSome f (x # xs) = (case f x of Some y \<Rightarrow> Some y | None \<Rightarrow> firstSome f xs)"

text \<open>The character before the position reached after consuming \<open>t\<close>.\<close>

definition before :: "char option \<Rightarrow> string \<Rightarrow> char option" where
  "before prev t = (if t = [] then prev else Some (last t))"

definition atBoundary :: "char option \<Rightarrow> string \<Rightarrow> bool" where
  "atBoundary prev s =
     ((case prev of None \<Rightarrow> False | Some c \<Rightarrow> isWord c) \<noteq> (case s of [] \<Rightarrow> False | c # r \<Rightarrow> isWord c))"

text \<open>
  \<open>matchFrom re prev s\<close>: the pattern matched at the head of \<open>s\<close>, \<open>prev\<close> being the
  character before it. The result is the length matched and the captured groups.
\<close>

fun matchFrom :: "regex \<Rightarrow> char option \<Rightarrow> string \<Rightarrow> (nat \<times> string list) option" where
  "matchFrom [] prev s = Some (0, [])"
| "matchFrom (WordBoundary # ps) prev s =
     (if atBoundary prev s then matchFrom ps prev s else None)"
| "matchFrom (Match q a # ps) prev s =
     firstSome
       (\<lambda>k. case matchFrom ps (before prev (take k s)) (drop k s) of
               None \<Rightarrow> None
             | Some (n, caps) \<Rightarrow> Some (k + n, caps))
       (lens q a s)"
| "matchFrom (Capture q a # ps) prev s =
     firstSome
       (\<lambda>k. case matchFrom ps (before prev (take k s)) (drop k s) of
               None \<Rightarrow> None
             | Some (n, caps) \<Rightarrow> Some (k + n, take k s # caps))
       (lens q a s)"

text \<open>The leftmost match: the array \<open>[m[0], m[1], ...]\<close> of the whole match and its groups.\<close>

fun searchFrom :: "regex \<Rightarrow> char option \<Rightarrow> string \<Rightarrow> string list option" where
  "searchFrom re prev [] =
     (case matchFrom re prev [] of None \<Rightarrow> None | Some (n, caps) \<Rightarrow> Some ([] # caps))"
| "searchFrom re prev (c # cs) =
     (case matchFrom re prev (c # cs) of
        None \<Rightarrow> searchFrom re (Some c) cs
      | Some (n, caps) \<Rightarrow> Some (take n (c # cs) # caps))"

text \<open>\<open>s.match(re)\<close> for a pattern without the flag \<open>g\<close>; \<open>None\<close> is JavaScript's null.\<close>

definition String_match :: "string \<Rightarrow> regex \<Rightarrow> string list option" where
  "String_match s re = searchFrom re None s"

text \<open>\<open>m[i]\<close>; \<open>None\<close> is JavaScript's undefined.\<close>

definition group :: "string list \<Rightarrow> nat \<Rightarrow> string option" where
  "group m i = (if i < length m then Some (m ! i) else None)"

definition lit :: "string \<Rightarrow> regex" where
  "lit s = map (\<lambda>c. Match One (Chr c)) s"

definition spaces :: piece where
  "spaces = Match Star (Cls Space)"

definition number_group :: piece where
  "number_group = Capture Plus (Cls DigitDot)"

definition word_group :: piece where
  "word_group = Capture Plus (Cls Letter)"

subsection \<open>JSON\<close>

text \<open>
  The values \<open>JSON.parse\<close> returns. The characters of a string value and of a key are
  code units, numbers below 65536: a \<open>\u\<close> escape denotes any of them, also those above
  255 that a text of this model cannot hold. An object is the list of its properties; a
  key given twice keeps its place and takes the later value. (JavaScript lists
  integer-like keys first; nothing below depends on the order.)
\<close>

type_synonym code_units = "nat list"

datatype json =
    JNull
  | JBool bool
  | JNum number
  | JStr code_units
  | JArr "json list"
  | JObj "(code_units \<times> json) list"

datatype js_error = SpawnError | TypeError | SyntaxError

definition isJsonSpace :: "char \<Rightarrow> bool" where
  "isJsonSpace c = (code c \<in> {9, 10, 13, 32})"

definition skipWs :: "string \<Rightarrow> string" where
  "skipWs s = dropWhile isJsonSpace s"

text \<open>The code unit an escape of one character denotes.\<close>

definition escapeChar :: "char \<Rightarrow> nat option" where
  "escapeChar e =
     (if e = CHR 0x22 \<or> e = CHR 0x5C \<or> e = CHR ''/'' then Some (code e)
      else if e = CHR ''b'' then Some 8
      else if e = CHR ''f'' then Some 12
      else if e = CHR ''n'' then Some 10
      else if e = CHR ''r'' then Some 13
      else if e = CHR ''t'' then Some 9
      else None)"

text \<open>The code unit four hexadecimal digits denote.\<close>

definition hex4 :: "string \<Rightarrow> nat option" where
  "hex4 s =
     (if 4 \<le> length s \<and> list_all (\<lambda>c. radixDigit c \<noteq> None) (take 4 s)
      then Some (foldl (\<lambda>acc c. 16 * acc + the (radixDigit c)) 0 (take 4 s))
      else None)"

text \<open>The characters of a string literal after its opening quote, and the text after its closing quote.\<close>

fun parseChars :: "string \<Rightarrow> (code_units \<times> string) option" where
  "parseChars [] = None"
| "parseChars (c # cs) =
     (if c = CHR 0x22 then Some ([], cs)
      else if code c < 32 then None
      else if c = CHR 0x5C then
        (case cs of
           [] \<Rightarrow> None
         | e # r \<Rightarrow>
             if e = CHR ''u'' then
               (case hex4 r of
                  None \<Rightarrow> None
                | Some n \<Rightarrow>
                    (case parseChars (drop 4 r) of
                       None \<Rightarrow> None
                     | Some (t, rest) \<Rightarrow> Some (n # t, rest)))
             else
               (case escapeChar e of
                  None \<Rightarrow> None
                | Some x \<Rightarrow>
                    (case parseChars r of
                       None \<Rightarrow> None
                     | Some (t, rest) \<Rightarrow> Some (x # t, rest))))
      else
        (case parseChars cs of
           None \<Rightarrow> None
         | Some (t, rest) \<Rightarrow> Some (code c # t, rest)))"

text \<open>
  A JSON number: an optional minus, an integer part without a leading zero, an optional
  fraction with at least one digit, an optional exponent with at least one digit.
\<close>

definition parseNumber :: "string \<Rightarrow> (number \<times> string) option" where
  "parseNumber s =
     (let neg = startsWith s ''-'';
          s1 = (if neg then tl s else s);
          ip = takeWhile isDigit s1;
          r1 = dropWhile isDigit s1;
          frac = startsWith r1 ''.'';
          fp = (if frac then takeWhile isDigit (tl r1) else []);
          r2 = (if frac then dropWhile isDigit (tl r1) else r1);
          ex = (startsWith r2 ''e'' \<or> startsWith r2 ''E'');
          r2' = (if ex then tl r2 else r2);
          eneg = startsWith r2' ''-'';
          r2'' = (if ex \<and> (startsWith r2' ''-'' \<or> startsWith r2' ''+'') then tl r2' else r2');
          ed = (if ex then takeWhile isDigit r2'' else []);
          r3 = (if ex then dropWhile isDigit r2'' else r2);
          e = (if eneg then - int (digitsVal ed) else int (digitsVal ed));
          v = scale10 (digitsVal (ip @ fp)) (e - int (length fp))
      in if ip = [] \<or> (1 < length ip \<and> startsWith ip ''0'') \<or> (frac \<and> fp = []) \<or> (ex \<and> ed = [])
         then None
         else Some (toNumber (if neg then - v else v), r3))"

text \<open>\<open>obj[k] = v\<close> while an object literal is read.\<close>

fun setProp :: "code_units \<Rightarrow> json \<Rightarrow> (code_units \<times> json) list \<Rightarrow> (code_units \<times> json) list" where
  "setProp k v [] = [(k, v)]"
| "setProp k v ((k', v') # kvs) = (if k = k' then (k, v) # kvs else (k', v') # setProp k v kvs)"

text \<open>
  The recursive descent, on a text whose leading white space is skipped. The first
  argument is fuel: it bounds the number of nested calls. \<open>JSON_parse\<close> supplies more than
  a text of its length can use (lemma \<open>JSON_parse_fuel\<close> below), so running out of fuel
  never happens and \<open>None\<close> always is a syntax error.
\<close>

fun parseValue :: "nat \<Rightarrow> string \<Rightarrow> (json \<times> string) option"
  and parseElements :: "nat \<Rightarrow> string \<Rightarrow> (json list \<times> string) option"
  and parseMembers ::
    "nat \<Rightarrow> (code_units \<times> json) list \<Rightarrow> string \<Rightarrow> ((code_units \<times> json) list \<times> string) option"
where
  "parseValue 0 s = None"
| "parseValue (Suc n) s =
     (if startsWith s ''null'' then Some (JNull, drop 4 s)
      else if startsWith s ''true'' then Some (JBool True, drop 4 s)
      else if startsWith s ''false'' then Some (JBool False, drop 5 s)
      else
        (case s of
           [] \<Rightarrow> None
         | c # r \<Rightarrow>
             if c = CHR 0x22 then
               (case parseChars r of None \<Rightarrow> None | Some (t, rest) \<Rightarrow> Some (JStr t, rest))
             else if c = CHR ''['' then
               (if startsWith (skipWs r) '']'' then Some (JArr [], tl (skipWs r))
                else (case parseElements n (skipWs r) of
                        None \<Rightarrow> None
                      | Some (vs, rest) \<Rightarrow> Some (JArr vs, rest)))
             else if c = CHR ''{'' then
               (if startsWith (skipWs r) ''}'' then Some (JObj [], tl (skipWs r))
                else (case parseMembers n [] (skipWs r) of
                        None \<Rightarrow> None
                      | Some (kvs, rest) \<Rightarrow> Some (JObj kvs, rest)))
             else if c = CHR ''-'' \<or> isDigit c then
               (case parseNumber s of None \<Rightarrow> None | Some (x, rest) \<Rightarrow> Some (JNum x, rest))
             else None))"
| "parseElements 0 s = None"
| "parseElements (Suc n) s =
     (case parseValue n s of
        None \<Rightarrow> None
      | Some (v, r) \<Rightarrow>
          if startsWith (skipWs r) '','' then
            (case parseElements n (skipWs (tl (skipWs r))) of
               None \<Rightarrow> None
             | Some (vs, rest) \<Rightarrow> Some (v # vs, rest))
          else if startsWith (skipWs r) '']'' then Some ([v], tl (skipWs r))
          else None)"
| "parseMembers 0 acc s = None"
| "parseMembers (Suc n) acc s =
     (case s of
        [] \<Rightarrow> None
      | c # r \<Rightarrow>
          if c = CHR 0x22 then
            (case parseChars r of
               None \<Rightarrow> None
             | Some (k, r1) \<Rightarrow>
                 if startsWith (skipWs r1) '':'' then
                   (case parseValue n (skipWs (tl (skipWs r1))) of
                      None \<Rightarrow> None
                    | Some (v, r2) \<Rightarrow>
                        if startsWith (skipWs r2) '','' then
                          parseMembers n (setProp k v acc) (skipWs (tl (skipWs r2)))
                        else if startsWith (skipWs r2) ''}'' then
                          Some (setProp k v acc, tl (skipWs r2))
                        else None)
                 else None)
          else None)"

text \<open>\<open>JSON.parse(s)\<close>; \<open>None\<close> stands for the SyntaxError it throws.\<close>

definition JSON_parse :: "string \<Rightarrow> json option" where
  "JSON_parse s =
     (case parseValue (2 * length s + 2) (skipWs s) of
        None \<Rightarrow> None
      | Some (v, rest) \<Rightarrow> if skipWs rest = [] then Some v else None)"

text \<open>
  \<open>Object.values(v)\<close>: a TypeError for null (\<open>None\<close>), nothing for a boolean or a number,
  the code units of a string, the elements of an array, the property values of an object.
\<close>

fun Object_values :: "json \<Rightarrow> json list option" where
  "Object_values JNull = None"
| "Object_values (JBool b) = Some []"
| "Object_values (JNum x) = Some []"
| "Object_values (JStr s) = Some (map (\<lambda>u. JStr [u]) s)"
| "Object_values (JArr vs) = Some vs"
| "Object_values (JObj kvs) = Some (map snd kvs)"

text \<open>
  The conversion of a string value to a number. White space is trimmed, here the white
  space among all code units; a numeric literal is ASCII, so what remains is a text of
  this model or no number.
\<close>

definition isSpaceUnit :: "nat \<Rightarrow> bool" where
  "isSpaceUnit u =
     (u \<in> {9, 10, 11, 12, 13, 32, 160, 0x1680, 0x2028, 0x2029, 0x202F, 0x205F, 0x3000, 0xFEFF}
      \<or> (0x2000 \<le> u \<and> u \<le> 0x200A))"

definition StringToNumber :: "code_units \<Rightarrow> number" where
  "StringToNumber us =
     (let t = rev (dropWhile isSpaceUnit (rev (dropWhile isSpaceUnit us)))
      in if list_all (\<lambda>u. u < 256) t then Number (map char_of t) else NaN)"

text \<open>
  The conversion of a value to its text, \<open>ToString\<close>. The text is a list of segments: the
  text of a number is kept as that number, because the conversion back, the only use made
  of a text here, returns the number. An object parsed from JSON has callable \<open>toString\<close>
  and \<open>valueOf\<close> only by inheritance: when it has a property \<open>toString\<close> of its own, which
  is no function, no conversion to a primitive value exists and a TypeError is thrown;
  otherwise its text is \<open>[object Object]\<close>. The text of an array joins the texts of its
  elements with commas, the text of a null element being empty.
\<close>

datatype segment = NumberText number | Chars code_units | Comma

definition hasOwnProperty :: "(code_units \<times> json) list \<Rightarrow> string \<Rightarrow> bool" where
  "hasOwnProperty kvs k = (map code k \<in> set (map fst kvs))"

fun joinSegments :: "(js_error + segment list) list \<Rightarrow> js_error + segment list" where
  "joinSegments [] = Inr []"
| "joinSegments [r] = r"
| "joinSegments (r # q # rs) =
     (case r of
        Inl e \<Rightarrow> Inl e
      | Inr t \<Rightarrow> (case joinSegments (q # rs) of Inl e \<Rightarrow> Inl e | Inr u \<Rightarrow> Inr (t @ Comma # u)))"

fun ToString :: "json \<Rightarrow> js_error + segment list" where
  "ToString JNull = Inr [Chars (map code ''null'')]"
| "ToString (JBool b) = Inr [Chars (map code (if b then ''true'' else ''false''))]"
| "ToString (JNum x) = Inr [NumberText x]"
| "ToString (JStr s) = Inr [Chars s]"
| "ToString (JObj kvs) =
     (if hasOwnProperty kvs ''toString'' then Inl TypeError
      else Inr [Chars (map code ''[object Object]'')])"
| "ToString (JArr vs) = joinSegments (map (\<lambda>v. if v = JNull then Inr [] else ToString v) vs)"

text \<open>The number a text denotes: a text that holds a comma is no number.\<close>

fun textToNumber :: "segment list \<Rightarrow> number" where
  "textToNumber [] = Finite 0"
| "textToNumber [NumberText x] = x"
| "textToNumber [Chars s] = StringToNumber s"
| "textToNumber t = NaN"

text \<open>
  The conversion of a value to a number, \<open>ToNumber\<close>: an object or an array converts
  through its text, and throws when that conversion throws.
\<close>

fun ToNumber :: "json \<Rightarrow> js_error + number" where
  "ToNumber JNull = Inr (Finite 0)"
| "ToNumber (JBool b) = Inr (Finite (if b then 1 else 0))"
| "ToNumber (JNum x) = Inr x"
| "ToNumber (JStr s) = Inr (StringToNumber s)"
| "ToNumber v = (case ToString v of Inl e \<Rightarrow> Inl e | Inr t \<Rightarrow> Inr (textToNumber t))"

text \<open>
  \<open>Math.max(...vs)\<close>: every argument is converted first, then the greatest is taken. The
  bound an engine puts on the number of arguments of a call is not modelled.
\<close>

fun coerceAll :: "json list \<Rightarrow> js_error + number list" where
  "coerceAll [] = Inr []"
| "coerceAll (v # vs) =
     (case ToNumber v of
        Inl e \<Rightarrow> Inl e
      | Inr x \<Rightarrow> (case coerceAll vs of Inl e \<Rightarrow> Inl e | Inr xs \<Rightarrow> Inr (x # xs)))"

definition Math_max_spread :: "json list \<Rightarrow> js_error + number" where
  "Math_max_spread vs = (case coerceAll vs of Inl e \<Rightarrow> Inl e | Inr xs \<Rightarrow> Inr (Math_max xs))"

section \<open>The data model of the bridge\<close>

record GPUStats =
  freq_mhz :: "number option"
  active_pct :: "number option"
  idle_pct :: "number option"
  power_mw :: "number option"

datatype memory_pressure = Green | Yellow | Red | Unknown

record MemoryStats =
  pressure :: memory_pressure
  swap_gb :: "number option"

record PerfStats =
  ms_per_step :: "number option"
  tokens_per_s :: "number option"

datatype thermal_level = Nominal | Moderate | Heavy | Critical | UnknownLevel

record thermal_source =
  pmset_ok :: bool
  powermetrics_smc_ok :: bool
  m4_temp_ok :: bool

record ThermalStats =
  cpu_speed_limit_pct :: "number option"
  gpu_speed_limit_pct :: "number option"
  thermal_pressure :: thermal_level
  cpu_temp_c :: "number option"
  gpu_temp_c :: "number option"
  soc_temp_c :: "number option"
  source :: thermal_source

text \<open>What a probe returns: \<open>{stats, raw, ok}\<close>.\<close>

record 'a probe =
  stats :: 'a
  raw :: string
  probe_ok :: bool

record derived_stats =
  gpu_pinned :: bool

record snapshot =
  ts :: string
  gpu :: GPUStats
  memory :: MemoryStats
  thermal :: ThermalStats
  perf :: PerfStats
  derived :: derived_stats
  warnings :: "string list"

section \<open>The bounded process runner\<close>

text \<open>
  The operating system is the environment of \<open>run\<close>. \<open>Bun.spawn\<close> either returns a
  subprocess or throws; of a subprocess the runner observes the value \<open>p.exited\<close> resolves
  to and the text of its two streams (\<open>None\<close> when reading a stream fails). The timer
  that kills the process after \<open>timeoutMs\<close> acts on the process only: what it changes is
  the exit value and the text the environment delivers.
\<close>

record subprocess =
  exited :: int
  stdout_text :: "string option"
  stderr_text :: "string option"

type_synonym spawner = "string list \<Rightarrow> js_error + subprocess"

record run_result =
  ok :: bool
  stdout :: string
  stderr :: string

definition run :: "spawner \<Rightarrow> string list \<Rightarrow> nat \<Rightarrow> js_error + run_result" where
  "run Bun_spawn cmd timeoutMs =
     (case Bun_spawn cmd of
        Inl e \<Rightarrow> Inl e
      | Inr p \<Rightarrow>
          Inr \<lparr> ok = (exited p = 0),
                stdout = (case stdout_text p of None \<Rightarrow> [] | Some t \<Rightarrow> t),
                stderr = (case stderr_text p of None \<Rightarrow> [] | Some t \<Rightarrow> t) \<rparr>)"

section \<open>The metric parsers\<close>

text \<open>\<open>Number(m[1])\<close>, where \<open>m[1]\<close> may be undefined: the number of undefined is NaN.\<close>

definition Number_of :: "string option \<Rightarrow> number" where
  "Number_of g = (case g of None \<Rightarrow> NaN | Some t \<Rightarrow> Number t)"

definition matchNumber :: "string \<Rightarrow> regex \<Rightarrow> number option" where
  "matchNumber hay re =
     (case String_match hay re of
        None \<Rightarrow> None
      | Some m \<Rightarrow>
          (let n = Number_of (group m 1)
           in if Number_isFinite n then Some n else None))"

definition gpu_freq_re :: regex where
  "gpu_freq_re = lit ''GPU HW active frequency:'' @ [spaces, number_group, spaces] @ lit ''MHz''"

definition gpu_active_re :: regex where
  "gpu_active_re = lit ''GPU HW active residency:'' @ [spaces, number_group, spaces] @ lit ''%''"

definition gpu_idle_re :: regex where
  "gpu_idle_re = lit ''GPU idle residency:'' @ [spaces, number_group, spaces] @ lit ''%''"

definition gpu_power_re :: regex where
  "gpu_power_re = lit ''GPU Power:'' @ [spaces, number_group, spaces] @ lit ''mW''"

definition parsePowermetricsGPU :: "string \<Rightarrow> GPUStats" where
  "parsePowermetricsGPU out =
     \<lparr> freq_mhz = matchNumber out gpu_freq_re,
       active_pct = matchNumber out gpu_active_re,
       idle_pct = matchNumber out gpu_idle_re,
       power_mw = matchNumber out gpu_power_re \<rparr>"

definition parseMemoryPressure :: "string \<Rightarrow> memory_pressure" where
  "parseMemoryPressure out =
     (let lower = toLowerCase out in
      if String_includes lower ''critical'' \<or> String_includes lower ''red'' then Red
      else if String_includes lower ''warn'' \<or> String_includes lower ''warning''
              \<or> String_includes lower ''yellow'' then Yellow
      else if String_includes lower ''normal'' \<or> String_includes lower ''green''
              \<or> String_includes lower ''77%'' then Green
      else if String_includes lower ''memory free percentage'' then Green
      else Unknown)"

definition swap_re :: regex where
  "swap_re = lit ''used'' @ [spaces, Match One (Chr (CHR ''='')), spaces, number_group,
                            Capture One (Cls MG), WordBoundary]"

text \<open>\<open>used[2].toUpperCase()\<close> throws a TypeError when \<open>used[2]\<close> is undefined.\<close>

definition parseSwapUsage :: "string \<Rightarrow> js_error + number option" where
  "parseSwapUsage sysctlOut =
     (case String_match sysctlOut swap_re of
        None \<Rightarrow> Inr None
      | Some used \<Rightarrow>
          (let val = Number_of (group used 1) in
           case group used 2 of
             None \<Rightarrow> Inl TypeError
           | Some u \<Rightarrow>
               (let unit = toUpperCase u in
                if \<not> Number_isFinite val then Inr None
                else Inr (Some (if unit = ''G'' then val else divide_by val 1024)))))"

definition cpu_limit_re :: regex where
  "cpu_limit_re = lit ''CPU_Speed_Limit'' @ [spaces, Match One (Chr (CHR ''='')), spaces, number_group]"

definition gpu_limit_re :: regex where
  "gpu_limit_re = lit ''GPU_Speed_Limit'' @ [spaces, Match One (Chr (CHR ''='')), spaces, number_group]"

definition pressure_re1 :: regex where
  "pressure_re1 = lit ''ThermalPressure'' @ [spaces, Match One (Chr (CHR ''='')), spaces, word_group]"

definition pressure_re2 :: regex where
  "pressure_re2 = lit ''Thermal Pressure:'' @ [spaces, word_group]"

definition pressure_re3 :: regex where
  "pressure_re3 = lit ''Current pressure level:'' @ [spaces, word_group]"

text \<open>\<open>a ?? b\<close> and, for match arrays (always truthy), \<open>a || b\<close>.\<close>

definition orElse :: "'a option \<Rightarrow> 'a option \<Rightarrow> 'a option" where
  "orElse a b = (case a of None \<Rightarrow> b | Some x \<Rightarrow> Some x)"

record pmset_therm =
  cpuLim :: "number option"
  gpuLim :: "number option"
  pmset_pressure :: thermal_level

definition classify :: "string \<Rightarrow> thermal_level" where
  "classify v =
     (if String_includes v ''nominal'' then Nominal
      else if String_includes v ''moderate'' then Moderate
      else if String_includes v ''heavy'' then Heavy
      else if String_includes v ''critical'' then Critical
      else UnknownLevel)"

text \<open>\<open>m[1].toLowerCase()\<close> throws a TypeError when \<open>m[1]\<close> is undefined.\<close>

definition parsePmsetTherm :: "string \<Rightarrow> js_error + pmset_therm" where
  "parsePmsetTherm out =
     (let cpu = matchNumber out cpu_limit_re;
          gpuL = matchNumber out gpu_limit_re;
          m = orElse (String_match out pressure_re1)
                (orElse (String_match out pressure_re2) (String_match out pressure_re3))
      in case (case m of
                 None \<Rightarrow> Inr UnknownLevel
               | Some a \<Rightarrow>
                   (case group a 1 of
                      None \<Rightarrow> Inl TypeError
                    | Some g \<Rightarrow> Inr (classify (toLowerCase g)))) of
           Inl e \<Rightarrow> Inl e
         | Inr p0 \<Rightarrow>
             (let p = (if p0 = UnknownLevel
                          \<and> (String_includes out ''No thermal warning level has been recorded''
                               \<or> String_includes out ''Nominal'')
                       then Nominal else p0);
                  finalCpuLim = orElse cpu
                     (if String_includes out ''No CPU power status has been recorded''
                      then Some (Finite 100) else None);
                  finalGpuLim = (case gpuL of None \<Rightarrow> Finite 100 | Some x \<Rightarrow> x)
              in Inr \<lparr> cpuLim = finalCpuLim, gpuLim = Some finalGpuLim, pmset_pressure = p \<rparr>))"

definition temp_re :: "string \<Rightarrow> regex" where
  "temp_re label = lit label @ [spaces, number_group, spaces] @ lit ''C''"

record die_temps =
  cpu_die :: "number option"
  gpu_die :: "number option"
  soc_die :: "number option"

definition parsePowermetricsSMCTemps :: "string \<Rightarrow> die_temps" where
  "parsePowermetricsSMCTemps out =
     \<lparr> cpu_die = orElse (matchNumber out (temp_re ''CPU die temperature:''))
                   (matchNumber out (temp_re ''CPU temperature:'')),
       gpu_die = orElse (matchNumber out (temp_re ''GPU die temperature:''))
                   (matchNumber out (temp_re ''GPU temperature:'')),
       soc_die = orElse (matchNumber out (temp_re ''SoC die temperature:''))
                   (orElse (matchNumber out (temp_re ''SOC die temperature:''))
                      (matchNumber out (temp_re ''PMU die temperature:''))) \<rparr>"

section \<open>The probes\<close>

definition nl :: string where
  "nl = [CHR 0x0A]"

text \<open>The commands the probes run.\<close>

definition gpu_cmd :: "string list" where
  "gpu_cmd = [''powermetrics'', ''--samplers'', ''gpu_power'', ''-n'', ''1'', ''-i'', ''1000'']"

definition memory_pressure_cmd :: "string list" where
  "memory_pressure_cmd = [''memory_pressure'', ''-Q'']"

definition swap_cmd :: "string list" where
  "swap_cmd = [''sysctl'', ''vm.swapusage'']"

definition pmset_cmd :: "string list" where
  "pmset_cmd = [''pmset'', ''-g'', ''therm'']"

definition smc_cmd :: "string list" where
  "smc_cmd = [''powermetrics'', ''--samplers'', ''smc,thermal'', ''-n'', ''1'', ''-i'', ''1000'']"

definition m4temp_cmd :: "string list" where
  "m4temp_cmd = [''swift'', ''./M4Temp.swift'']"

definition getGPU :: "spawner \<Rightarrow> js_error + GPUStats probe" where
  "getGPU Bun_spawn =
     (case run Bun_spawn gpu_cmd 8000 of
        Inl e \<Rightarrow> Inl e
      | Inr r \<Rightarrow>
          (let gpuRaw = stdout r @ stderr r
           in Inr \<lparr> stats = parsePowermetricsGPU gpuRaw, raw = gpuRaw, probe_ok = ok r \<rparr>))"

definition getMemory :: "spawner \<Rightarrow> js_error + MemoryStats probe" where
  "getMemory Bun_spawn =
     (case run Bun_spawn memory_pressure_cmd 4000 of
        Inl e \<Rightarrow> Inl e
      | Inr mp \<Rightarrow>
          (case run Bun_spawn swap_cmd 3000 of
             Inl e \<Rightarrow> Inl e
           | Inr swap \<Rightarrow>
               (let mpRaw = stdout mp @ stderr mp;
                    swapRaw = stdout swap @ stderr swap
                in case parseSwapUsage swapRaw of
                     Inl e \<Rightarrow> Inl e
                   | Inr sw \<Rightarrow>
                       Inr \<lparr> stats = \<lparr> pressure = parseMemoryPressure mpRaw, swap_gb = sw \<rparr>,
                             raw = ''=== memory_pressure -Q ==='' @ nl @ mpRaw @ nl @ nl
                                   @ ''=== sysctl vm.swapusage ==='' @ nl @ swapRaw @ nl,
                             probe_ok = (ok mp \<and> ok swap) \<rparr>)))"

text \<open>
  The body of the \<open>try\<close> block inside \<open>getThermals\<close>: it throws the SyntaxError of
  \<open>JSON.parse\<close>, the TypeError of \<open>Object.values\<close> and the TypeError of \<open>Math.max\<close>, each
  before anything is assigned to \<open>t\<close>.
\<close>

definition tryFallback :: "die_temps \<Rightarrow> string \<Rightarrow> js_error + die_temps" where
  "tryFallback t m4Raw =
     (case JSON_parse m4Raw of
        None \<Rightarrow> Inl SyntaxError
      | Some data \<Rightarrow>
          (case Object_values data of
             None \<Rightarrow> Inl TypeError
           | Some temps \<Rightarrow>
               if 0 < length temps then
                 (case Math_max_spread temps of
                    Inl e \<Rightarrow> Inl e
                  | Inr maxTemp \<Rightarrow>
                      Inr (t\<lparr> cpu_die := Some maxTemp, soc_die := Some maxTemp, gpu_die := Some maxTemp \<rparr>))
               else Inr t))"

text \<open>
  The fallback to the sensor helper: the \<open>catch\<close> block is empty, so an exception leaves
  \<open>t\<close> as it was.
\<close>

definition sensorFallback :: "die_temps \<Rightarrow> bool \<Rightarrow> string \<Rightarrow> die_temps" where
  "sensorFallback t m4ok m4Raw =
     (if cpu_die t = None \<and> gpu_die t = None \<and> soc_die t = None \<and> m4ok then
        (case tryFallback t m4Raw of Inl e \<Rightarrow> t | Inr t' \<Rightarrow> t')
      else t)"

definition getThermals :: "spawner \<Rightarrow> js_error + ThermalStats probe" where
  "getThermals Bun_spawn =
     (case run Bun_spawn pmset_cmd 3000 of
        Inl e \<Rightarrow> Inl e
      | Inr pmset \<Rightarrow>
     (case run Bun_spawn smc_cmd 8000 of
        Inl e \<Rightarrow> Inl e
      | Inr smc \<Rightarrow>
     (case run Bun_spawn m4temp_cmd 4000 of
        Inl e \<Rightarrow> Inl e
      | Inr m4temp \<Rightarrow>
          (let pmsetRaw = stdout pmset @ stderr pmset;
               smcRaw = stdout smc @ stderr smc;
               m4Raw = stdout m4temp @ stderr m4temp
           in case parsePmsetTherm (pmsetRaw @ nl @ smcRaw) of
                Inl e \<Rightarrow> Inl e
              | Inr p \<Rightarrow>
                  (let t = sensorFallback (parsePowermetricsSMCTemps smcRaw) (ok m4temp) m4Raw
                   in Inr \<lparr> stats =
                              \<lparr> cpu_speed_limit_pct = cpuLim p,
                                gpu_speed_limit_pct = gpuLim p,
                                thermal_pressure = pmset_pressure p,
                                cpu_temp_c = cpu_die t,
                                gpu_temp_c = gpu_die t,
                                soc_temp_c = soc_die t,
                                source = \<lparr> pmset_ok = ok pmset,
                                           powermetrics_smc_ok = ok smc,
                                           m4_temp_ok = ok m4temp \<rparr> \<rparr>,
                            raw = ''=== pmset -g therm ==='' @ nl @ pmsetRaw @ nl @ nl
                                  @ ''=== powermetrics (smc) ==='' @ nl @ smcRaw @ nl @ nl
                                  @ ''=== M4Temp (HID) ==='' @ nl @ m4Raw @ nl,
                            probe_ok = (ok pmset \<or> ok smc \<or> ok m4temp) \<rparr>)))))"

definition getPerf :: PerfStats where
  "getPerf = \<lparr> ms_per_step = None, tokens_per_s = None \<rparr>"

section \<open>The aggregator: the handler of /metrics\<close>

definition warn_gpu :: string where
  "warn_gpu = ''GPU stats missing: powermetrics likely needs sudo.''"

definition warn_pmset :: string where
  "warn_pmset = ''Thermal stats missing: pmset -g therm failed.''"

definition warn_temps :: string where
  "warn_temps = ''Temperature sensors (CPU/GPU) are not available via standard powermetrics on M4 Max / macOS 15+.''"

text \<open>The snapshot built from the four probe results; \<open>now\<close> is the time stamp.\<close>

definition metrics_snapshot ::
    "string \<Rightarrow> GPUStats probe \<Rightarrow> MemoryStats probe \<Rightarrow> ThermalStats probe \<Rightarrow> PerfStats \<Rightarrow> snapshot" where
  "metrics_snapshot now g mem therm pf =
     (let active = active_pct (stats g);
          idle = idle_pct (stats g);
          pinned = (case active of
                      None \<Rightarrow> False
                    | Some a \<Rightarrow>
                        (case idle of
                           None \<Rightarrow> False
                         | Some i \<Rightarrow> js_ge a (Finite 95) \<and> js_le i (Finite 2)))
      in \<lparr> ts = now,
            gpu = stats g,
            memory = stats mem,
            thermal = stats therm,
            perf = pf,
            derived = \<lparr> gpu_pinned = pinned \<rparr>,
            warnings =
              (if freq_mhz (stats g) = None \<and> power_mw (stats g) = None then [warn_gpu] else [])
              @ (if pmset_ok (source (stats therm)) = False then [warn_pmset] else [])
              @ (if powermetrics_smc_ok (source (stats therm)) = False
                    \<and> m4_temp_ok (source (stats therm)) = False
                 then [warn_temps] else []) \<rparr>)"

definition fetch_metrics :: "spawner \<Rightarrow> string \<Rightarrow> js_error + snapshot" where
  "fetch_metrics Bun_spawn now =
     (case getGPU Bun_spawn of
        Inl e \<Rightarrow> Inl e
      | Inr g \<Rightarrow>
     (case getMemory Bun_spawn of
        Inl e \<Rightarrow> Inl e
      | Inr mem \<Rightarrow>
     (case getThermals Bun_spawn of
        Inl e \<Rightarrow> Inl e
      | Inr therm \<Rightarrow> Inr (metrics_snapshot now g mem therm getPerf))))"

section \<open>Notions used to state the properties\<close>

text \<open>The number of capture groups of a pattern.\<close>

fun ngroups :: "regex \<Rightarrow> nat" where
  "ngroups [] = 0"
| "ngroups (Capture q a # ps) = Suc (ngroups ps)"
| "ngroups (p # ps) = ngroups ps"

text \<open>The capture groups of a pattern, and what one group may have captured.\<close>

fun cap_pieces :: "regex \<Rightarrow> (quant \<times> atom) list" where
  "cap_pieces [] = []"
| "cap_pieces (Capture q a # ps) = (q, a) # cap_pieces ps"
| "cap_pieces (p # ps) = cap_pieces ps"

definition cap_ok :: "quant \<times> atom \<Rightarrow> string \<Rightarrow> bool" where
  "cap_ok qa w =
     (list_all (atom_matches (snd qa)) w
      \<and> (case fst qa of One \<Rightarrow> length w = 1 | Plus \<Rightarrow> w \<noteq> [] | Star \<Rightarrow> True))"

text \<open>
  The token of the swap parser, read at the head of a text as the specification words it:
  the word \<open>used\<close> in any case, white space, the sign \<open>=\<close>, white space, a value (a
  non-empty run of digits and points), a unit (M or G in any case), and then no word
  character. The result is the token, its value and its unit; no pattern matcher is
  involved.
\<close>

definition swap_token_here :: "string \<Rightarrow> (string \<times> string \<times> char) option" where
  "swap_token_here t =
     (let u = take 4 t;
          ws1 = takeWhile isSpace (drop 4 t);
          r1 = dropWhile isSpace (drop 4 t);
          ws2 = takeWhile isSpace (tl r1);
          r2 = dropWhile isSpace (tl r1);
          v = takeWhile isDigitDot r2;
          r3 = dropWhile isDigitDot r2
      in if map upper_char u = ''USED'' \<and> r1 \<noteq> [] \<and> hd r1 = CHR ''='' \<and> v \<noteq> [] \<and> r3 \<noteq> []
            \<and> (upper_char (hd r3) = CHR ''M'' \<or> upper_char (hd r3) = CHR ''G'')
            \<and> (tl r3 = [] \<or> \<not> isWord (hd (tl r3)))
         then Some (u @ ws1 @ ''='' @ ws2 @ v @ [hd r3], v, hd r3)
         else None)"

text \<open>The first token of a text: the one that starts leftmost.\<close>

fun first_swap_token :: "string \<Rightarrow> (string \<times> string \<times> char) option" where
  "first_swap_token [] = None"
| "first_swap_token (c # cs) =
     (case swap_token_here (c # cs) of Some r \<Rightarrow> Some r | None \<Rightarrow> first_swap_token cs)"

section \<open>Facts about the runtime model\<close>

text \<open>The equations by which the model is evaluated on a concrete text.\<close>

lemmas char_eval = code_def char_of_def bit_Suc_0_iff

lemmas num_eval = Number_def Number_of_def trim_def isSpace_def unsignedDecimal_def
  exponentPart_def isDigit_def digitsVal_def scale10_def toNumber_def OVERFLOW_def
  radixVal_def radixDigit_def Number_isFinite_def Let_def

lemmas parse_numeral_fuel =
  parseValue.simps(2) [of "pred_numeral k" for k, folded numeral_eq_Suc]
  parseElements.simps(2) [of "pred_numeral k" for k, folded numeral_eq_Suc]
  parseMembers.simps(2) [of "pred_numeral k" for k, folded numeral_eq_Suc]

lemmas json_eval = JSON_parse_def skipWs_def isJsonSpace_def parseNumber_def escapeChar_def
  hex4_def parse_numeral_fuel Let_def


lemma startsWith_prefix: "startsWith s t \<longleftrightarrow> prefix t s"
  by (induction s t rule: startsWith.induct) auto

text \<open>
  The matcher on a piece without quantifier, one character at a time; with these
  equations in place of the defining ones a concrete match is evaluated quickly.
\<close>

lemma matchFrom_One_Nil:
  "matchFrom (Match One a # ps) prev [] = None"
  "matchFrom (Capture One a # ps) prev [] = None"
  by (simp_all add: run_length_def)

lemma matchFrom_One_Cons:
  "matchFrom (Match One a # ps) prev (c # cs) =
     (if atom_matches a c
      then (case matchFrom ps (Some c) cs of None \<Rightarrow> None | Some (n, caps) \<Rightarrow> Some (Suc n, caps))
      else None)"
  "matchFrom (Capture One a # ps) prev (c # cs) =
     (if atom_matches a c
      then (case matchFrom ps (Some c) cs of
              None \<Rightarrow> None
            | Some (n, caps) \<Rightarrow> Some (Suc n, [c] # caps))
      else None)"
  by (simp_all add: run_length_def before_def split: option.splits)

lemma matchFrom_Star:
  "matchFrom (Match Star a # ps) prev s =
     firstSome
       (\<lambda>k. case matchFrom ps (before prev (take k s)) (drop k s) of
               None \<Rightarrow> None
             | Some (n, caps) \<Rightarrow> Some (k + n, caps))
       (rev [0..<Suc (run_length a s)])"
  by simp

lemma matchFrom_Plus:
  "matchFrom (Capture Plus a # ps) prev s =
     firstSome
       (\<lambda>k. case matchFrom ps (before prev (take k s)) (drop k s) of
               None \<Rightarrow> None
             | Some (n, caps) \<Rightarrow> Some (k + n, take k s # caps))
       (rev [1..<Suc (run_length a s)])"
  by simp

lemmas re_eval = String_match_def group_def lit_def spaces_def number_group_def word_group_def
  matchFrom_One_Nil matchFrom_One_Cons matchFrom_Star matchFrom_Plus
  run_length_def isLetter_def isWord_def isDigitDot_def before_def atBoundary_def
  upper_char_def lower_char_def toUpperCase_def toLowerCase_def

lemma firstSome_SomeD: "firstSome f xs = Some y \<Longrightarrow> \<exists>x \<in> set xs. f x = Some y"
  by (induction xs) (auto split: option.splits)

text \<open>A match yields one capture for each group of the pattern.\<close>

lemma matchFrom_caps: "matchFrom re prev s = Some (n, caps) \<Longrightarrow> length caps = ngroups re"
proof (induction re arbitrary: prev s n caps)
  case Nil
  then show ?case by simp
next
  case (Cons p ps)
  show ?case
  proof (cases p)
    case (Match q a)
    with Cons.prems obtain k where
      "(case matchFrom ps (before prev (take k s)) (drop k s) of
          None \<Rightarrow> None | Some (n, caps) \<Rightarrow> Some (k + n, caps)) = Some (n, caps)"
      by (auto dest: firstSome_SomeD)
    then obtain n' where "matchFrom ps (before prev (take k s)) (drop k s) = Some (n', caps)"
      by (auto split: option.splits)
    with Cons.IH Match show ?thesis by simp
  next
    case (Capture q a)
    with Cons.prems obtain k where
      "(case matchFrom ps (before prev (take k s)) (drop k s) of
          None \<Rightarrow> None | Some (n, caps) \<Rightarrow> Some (k + n, take k s # caps)) = Some (n, caps)"
      by (auto dest: firstSome_SomeD)
    then obtain n' caps' where "matchFrom ps (before prev (take k s)) (drop k s) = Some (n', caps')"
      and "caps = take k s # caps'"
      by (auto split: option.splits)
    with Cons.IH Capture show ?thesis by simp
  next
    case WordBoundary
    with Cons.prems have "matchFrom ps prev s = Some (n, caps)"
      by (simp split: if_splits)
    with Cons.IH WordBoundary show ?thesis by simp
  qed
qed

lemma searchFrom_length: "searchFrom re prev s = Some m \<Longrightarrow> length m = Suc (ngroups re)"
  by (induction s arbitrary: prev) (auto split: option.splits dest: matchFrom_caps)

lemma String_match_length: "String_match s re = Some m \<Longrightarrow> length m = Suc (ngroups re)"
  unfolding String_match_def by (rule searchFrom_length)

lemma ngroups_append: "ngroups (xs @ ys) = ngroups xs + ngroups ys"
  by (induction xs rule: ngroups.induct) auto

lemma ngroups_lit: "ngroups (lit s) = 0"
  by (induction s) (auto simp: lit_def)

lemma ngroups_swap_re: "ngroups swap_re = 2"
  by (simp add: swap_re_def ngroups_append ngroups_lit spaces_def number_group_def)

lemma ngroups_pressure:
  "ngroups pressure_re1 = 1" "ngroups pressure_re2 = 1" "ngroups pressure_re3 = 1"
  by (simp_all add: pressure_re1_def pressure_re2_def pressure_re3_def ngroups_append
      ngroups_lit spaces_def word_group_def)

lemma matchNumber_Finite: "matchNumber hay re = Some n \<Longrightarrow> \<exists>x. n = Finite x"
  by (auto simp: matchNumber_def Let_def Number_isFinite_def
      split: option.splits if_splits number.splits)

lemma String_includes_sublist: "String_includes s t \<longleftrightarrow> sublist t s"
  by (induction s) (auto simp: startsWith_prefix sublist_Cons_right)

lemma sublist_map: "sublist xs ys \<Longrightarrow> sublist (map f xs) (map f ys)"
  by (auto simp: sublist_def) (metis map_append)

lemma lens_bound:
  "k \<in> set (lens q a s) \<Longrightarrow>
     k \<le> run_length a s \<and> (case q of One \<Rightarrow> k = 1 | Plus \<Rightarrow> 1 \<le> k | Star \<Rightarrow> True)"
  by (cases q) (auto split: if_splits)

lemma take_run_length:
  assumes "k \<le> run_length a s"
  shows "list_all (atom_matches a) (take k s)" and "length (take k s) = k"
proof -
  have "take k s = take k (takeWhile (atom_matches a) s)"
    using assms unfolding run_length_def
    by (metis append_eq_conv_conj append_take_drop_id takeWhile_dropWhile_id take_append
        diff_is_0_eq take_0 append_Nil2)
  moreover have "list_all (atom_matches a) (takeWhile (atom_matches a) s)"
    by (simp add: list_all_iff) (meson set_takeWhileD)
  ultimately show "list_all (atom_matches a) (take k s)"
    by (metis list_all_iff in_set_takeD)
  have "run_length a s \<le> length s"
    unfolding run_length_def by (rule length_takeWhile_le)
  with assms show "length (take k s) = k" by simp
qed

lemma matchFrom_cap_shapes:
  "matchFrom re prev s = Some (n, caps) \<Longrightarrow> list_all2 cap_ok (cap_pieces re) caps"
proof (induction re arbitrary: prev s n caps)
  case Nil
  then show ?case by simp
next
  case (Cons p ps)
  show ?case
  proof (cases p)
    case (Match q a)
    with Cons.prems obtain k where
      "(case matchFrom ps (before prev (take k s)) (drop k s) of
          None \<Rightarrow> None | Some (n, caps) \<Rightarrow> Some (k + n, caps)) = Some (n, caps)"
      by (auto dest: firstSome_SomeD)
    then obtain n' where "matchFrom ps (before prev (take k s)) (drop k s) = Some (n', caps)"
      by (auto split: option.splits)
    with Cons.IH Match show ?thesis by simp
  next
    case (Capture q a)
    with Cons.prems obtain k where k: "k \<in> set (lens q a s)" and
      "(case matchFrom ps (before prev (take k s)) (drop k s) of
          None \<Rightarrow> None | Some (n, caps) \<Rightarrow> Some (k + n, take k s # caps)) = Some (n, caps)"
      by (auto dest: firstSome_SomeD)
    then obtain n' caps' where m: "matchFrom ps (before prev (take k s)) (drop k s) = Some (n', caps')"
      and c: "caps = take k s # caps'"
      by (auto split: option.splits)
    from lens_bound [OF k] have b: "k \<le> run_length a s"
      and q: "(case q of One \<Rightarrow> k = 1 | Plus \<Rightarrow> 1 \<le> k | Star \<Rightarrow> True)" by simp_all
    from take_run_length [OF b] q have "cap_ok (q, a) (take k s)"
      by (cases q) (auto simp: cap_ok_def)
    with Cons.IH [OF m] Capture c show ?thesis by simp
  next
    case WordBoundary
    with Cons.prems have "matchFrom ps prev s = Some (n, caps)"
      by (simp split: if_splits)
    with Cons.IH WordBoundary show ?thesis by simp
  qed
qed

lemma searchFrom_shapes:
  "searchFrom re prev s = Some m \<Longrightarrow> \<exists>m0 caps. m = m0 # caps \<and> list_all2 cap_ok (cap_pieces re) caps"
  by (induction s arbitrary: prev) (auto split: option.splits dest: matchFrom_cap_shapes)

lemma cap_pieces_append: "cap_pieces (xs @ ys) = cap_pieces xs @ cap_pieces ys"
  by (induction xs rule: cap_pieces.induct) auto

lemma cap_pieces_lit: "cap_pieces (lit s) = []"
  by (induction s) (auto simp: lit_def)

lemma foldl_max2_Finite: "foldl max2 (Finite a) (map Finite xs) = Finite (fold max xs a)"
  by (induction xs arbitrary: a) (simp_all add: max.commute)

lemma Math_max_Finite: "xs \<noteq> [] \<Longrightarrow> Math_max (map Finite xs) = Finite (Max (set xs))"
proof (cases xs)
  case Nil
  moreover assume "xs \<noteq> []"
  ultimately show ?thesis by simp
next
  case (Cons x ys)
  have "Math_max (map Finite (x # ys)) = Finite (fold max ys x)"
    by (simp add: Math_max_def foldl_max2_Finite)
  also have "fold max ys x = Max (set (x # ys))"
    by (rule Max.set_eq_fold [symmetric])
  finally show ?thesis using Cons by simp
qed

text \<open>
  The number of a non-empty text of digits and points: the value of the decimal literal,
  never negative, or NaN when the text is no literal.
\<close>

lemma code_dot: "code (CHR ''.'') = 46"
  by (simp add: code_def)

lemma digitdot_code: "isDigitDot c \<Longrightarrow> code c = 46 \<or> (48 \<le> code c \<and> code c \<le> 57)"
  by (auto simp: isDigitDot_def isDigit_def code_dot)

lemma digitdot_not_space: "isDigitDot c \<Longrightarrow> \<not> isSpace c"
  by (drule digitdot_code) (auto simp: isSpace_def)

lemma code_inj: "code c = code d \<Longrightarrow> c = d"
  by (simp add: code_def)

lemma digitdot_not_char:
  assumes "isDigitDot c" and "code d \<noteq> 46" and "code d < 48 \<or> 57 < code d"
  shows "c \<noteq> d"
  using digitdot_code [OF assms(1)] assms(2,3) by auto

lemma trim_digitdot:
  assumes "list_all isDigitDot v"
  shows "trim v = v"
proof (cases v)
  case Nil
  then show ?thesis by (simp add: trim_def)
next
  case (Cons c cs)
  with assms have "\<not> isSpace (hd v)"
    by (simp add: digitdot_not_space)
  then have d: "dropWhile isSpace v = v"
    using Cons by simp
  from assms Cons have "\<not> isSpace (last v)"
    by (metis digitdot_not_space last_in_set list.distinct(1) list_all_iff)
  then have "dropWhile isSpace (rev v) = rev v"
    using Cons by (metis dropWhile_eq_self_iff hd_rev list.distinct(1) rev_is_Nil_conv)
  with d show ?thesis by (simp add: trim_def)
qed

lemma scale10_nonneg: "0 \<le> scale10 m e"
  by (simp add: scale10_def)

lemma unsignedDecimal_nonneg: "unsignedDecimal s = Some r \<Longrightarrow> 0 \<le> r"
  by (auto simp: unsignedDecimal_def Let_def scale10_nonneg split: if_splits option.splits)

lemma startsWith_Cons2: "startsWith s [a, b] \<Longrightarrow> \<exists>r. s = a # b # r"
  by (cases s; cases "tl s") auto

lemma startsWith_Cons1: "startsWith s [a] \<Longrightarrow> \<exists>r. s = a # r"
  by (cases s) auto

lemma Number_digitdot:
  assumes "list_all isDigitDot v" and "v \<noteq> []"
  shows "Number v = (case unsignedDecimal v of None \<Rightarrow> NaN | Some r \<Rightarrow> toNumber r)"
proof -
  have t: "trim v = v" using assms(1) by (rule trim_digitdot)
  have second: "\<not> startsWith v [a, b]" if "\<not> isDigitDot b" for a b
    using that assms(1) by (auto dest!: startsWith_Cons2)
  have first: "\<not> startsWith v [a]" if "\<not> isDigitDot a" for a
    using that assms(1) by (auto dest!: startsWith_Cons1)
  have nd: "\<not> isDigitDot (CHR ''x'')" "\<not> isDigitDot (CHR ''X'')" "\<not> isDigitDot (CHR ''o'')"
    "\<not> isDigitDot (CHR ''O'')" "\<not> isDigitDot (CHR ''b'')" "\<not> isDigitDot (CHR ''B'')"
    "\<not> isDigitDot (CHR ''-'')" "\<not> isDigitDot (CHR ''+'')" "\<not> isDigitDot (CHR ''I'')"
    by (simp_all add: isDigitDot_def isDigit_def code_def)
  have inf: "v \<noteq> ''Infinity''"
    using assms(1) nd(9) by auto
  show ?thesis
    unfolding Number_def Let_def t
    using assms(2) inf
    by (simp add: second [OF nd(1)] second [OF nd(2)] second [OF nd(3)] second [OF nd(4)]
        second [OF nd(5)] second [OF nd(6)] first [OF nd(7)] first [OF nd(8)]
        split: option.splits)
qed

lemma Number_digitdot_nonneg:
  assumes "list_all isDigitDot v" and "v \<noteq> []" and "Number v = Finite x"
  shows "0 \<le> x"
  using assms(3) unfolding Number_digitdot [OF assms(1,2)]
  by (auto simp: toNumber_def split: option.splits if_splits dest: unsignedDecimal_nonneg)

subsection \<open>The JSON parser needs no more fuel than it is given\<close>

text \<open>
  Every sub-parser that succeeds consumes at least one character; so the number of nested
  calls is bounded by the length of the text, and fuel beyond twice that length changes
  no result: a failure of \<open>JSON_parse\<close> is a failure of the grammar.
\<close>

lemma length_skipWs: "length (skipWs s) \<le> length s"
  unfolding skipWs_def by (rule length_dropWhile_le)

lemma startsWith_Cons1_tl: "startsWith s [a] \<Longrightarrow> length (tl s) < length s"
  by (cases s) auto

lemma parseChars_consumes: "parseChars s = Some (t, r) \<Longrightarrow> length r < length s"
proof (induction s arbitrary: t r rule: parseChars.induct)
  case 1
  then show ?case by simp
next
  case (2 c cs)
  show ?case
  proof (cases "c = CHR 0x22")
    case True
    with "2.prems" show ?thesis by simp
  next
    case q: False
    show ?thesis
    proof (cases "code c < 32")
      case True
      with q "2.prems" show ?thesis by simp
    next
      case ctl: False
      show ?thesis
      proof (cases "c = CHR 0x5C")
        case False
        with q ctl "2.prems" obtain t' where "parseChars cs = Some (t', r)"
          by (auto split: option.splits)
        with "2.IH"(3) [OF q ctl False] show ?thesis by fastforce
      next
        case bs: True
        show ?thesis
        proof (cases cs)
          case Nil
          with q ctl bs "2.prems" show ?thesis by simp
        next
          case (Cons e rest)
          show ?thesis
          proof (cases "e = CHR ''u''")
            case True
            with q ctl bs Cons "2.prems" obtain n t' where n: "hex4 rest = Some n"
                and p: "parseChars (drop 4 rest) = Some (t', r)"
              by (auto split: option.splits if_splits)
            from "2.IH"(1) [OF q ctl bs Cons True n p] show ?thesis
              using Cons by simp
          next
            case False
            with q ctl bs Cons "2.prems" obtain x t' where x: "escapeChar e = Some x"
                and p: "parseChars rest = Some (t', r)"
              by (auto split: option.splits)
            from "2.IH"(2) [OF q ctl bs Cons False x p] show ?thesis
              using Cons by simp
          qed
        qed
      qed
    qed
  qed
qed

lemma if_None_Some: "((if b then None else Some y) = Some z) = (\<not> b \<and> y = z)"
  by simp

lemma parseNumber_consumes: "parseNumber s = Some (x, r) \<Longrightarrow> length r < length s"
proof -
  assume a: "parseNumber s = Some (x, r)"
  define s1 where "s1 = (if startsWith s ''-'' then tl s else s)"
  define r1 where "r1 = dropWhile isDigit s1"
  define r2 where "r2 = (if startsWith r1 ''.'' then dropWhile isDigit (tl r1) else r1)"
  define r2' where "r2' = (if startsWith r2 ''e'' \<or> startsWith r2 ''E'' then tl r2 else r2)"
  define r2'' where "r2'' = (if (startsWith r2 ''e'' \<or> startsWith r2 ''E'')
       \<and> (startsWith r2' ''-'' \<or> startsWith r2' ''+'') then tl r2' else r2')"
  define r3 where "r3 = (if startsWith r2 ''e'' \<or> startsWith r2 ''E'' then dropWhile isDigit r2'' else r2)"
  from a have "takeWhile isDigit s1 \<noteq> [] \<and> r = r3"
    unfolding parseNumber_def Let_def if_None_Some s1_def r1_def r2_def r2'_def r2''_def r3_def
    by simp
  then have ip: "takeWhile isDigit s1 \<noteq> []" and r: "r = r3" by simp_all
  have "length s1 = length (takeWhile isDigit s1) + length r1"
    unfolding r1_def by (metis length_append takeWhile_dropWhile_id)
  with ip have l1: "length r1 < length s1" by (cases "takeWhile isDigit s1") auto
  have l0: "length s1 \<le> length s" unfolding s1_def by simp
  have l2: "length r2 \<le> length r1"
    unfolding r2_def using length_dropWhile_le [of isDigit "tl r1"] by auto
  have l3: "length r2' \<le> length r2" unfolding r2'_def by simp
  have l4: "length r2'' \<le> length r2'" unfolding r2''_def by simp
  have l5: "length r3 \<le> length r2"
    unfolding r3_def using length_dropWhile_le [of isDigit "r2''"] l3 l4 by auto
  from l0 l1 l2 l5 r show ?thesis by simp
qed

lemma startsWith_length: "startsWith s t \<Longrightarrow> length t \<le> length s"
  by (induction s t rule: startsWith.induct) auto

lemma drop_startsWith: "startsWith s t \<Longrightarrow> 0 < k \<Longrightarrow> k \<le> length t \<Longrightarrow> length (drop k s) < length s"
  by (drule startsWith_length) auto

lemma tl_skipWs_le: "length (tl (skipWs s)) \<le> length s"
  using length_skipWs [of s] by simp

lemma skip_tl_skip_lt: "startsWith (skipWs s) [a] \<Longrightarrow> length (skipWs (tl (skipWs s))) < length s"
  using length_skipWs [of s] length_skipWs [of "tl (skipWs s)"] startsWith_Cons1_tl [of "skipWs s" a]
  by simp

lemma parseValue_Suc_consumes:
  assumes E: "\<forall>s vs r. parseElements n s = Some (vs, r) \<longrightarrow> length r < length s"
    and M: "\<forall>acc s kvs r. parseMembers n acc s = Some (kvs, r) \<longrightarrow> length r < length s"
    and a: "parseValue (Suc n) s = Some (v, r)"
  shows "length r < length s"
proof (cases "startsWith s ''null''")
  case True
  with a have "r = drop 4 s" by auto
  with drop_startsWith [OF True, of 4] show ?thesis by simp
next
  case n1: False
  show ?thesis
  proof (cases "startsWith s ''true''")
    case True
    with a n1 have "r = drop 4 s" by auto
    with drop_startsWith [OF True, of 4] show ?thesis by simp
  next
    case n2: False
    show ?thesis
    proof (cases "startsWith s ''false''")
      case True
      with a n1 n2 have "r = drop 5 s" by auto
      with drop_startsWith [OF True, of 5] show ?thesis by simp
    next
      case n3: False
      show ?thesis
      proof (cases s)
        case Nil
        with a n1 n2 n3 show ?thesis by simp
      next
        case (Cons c r0)
        note b = a [unfolded parseValue.simps Cons [symmetric]]
        show ?thesis
        proof (cases "c = CHR 0x22")
          case True
          with a n1 n2 n3 Cons obtain t where "parseChars r0 = Some (t, r)"
            by (auto simp del: startsWith.simps split: option.splits)
          from parseChars_consumes [OF this] Cons show ?thesis by simp
        next
          case q: False
          show ?thesis
          proof (cases "c = CHR ''[''")
            case True
            show ?thesis
            proof (cases "startsWith (skipWs r0) '']''")
              case e: True
              with a n1 n2 n3 Cons q True have "r = tl (skipWs r0)"
                by (auto simp del: startsWith.simps)
              with tl_skipWs_le [of r0] Cons show ?thesis by simp
            next
              case e: False
              with a n1 n2 n3 Cons q True obtain vs where "parseElements n (skipWs r0) = Some (vs, r)"
                by (auto simp del: startsWith.simps split: option.splits)
              from E [rule_format, OF this] length_skipWs [of r0] Cons show ?thesis by simp
            qed
          next
            case br: False
            show ?thesis
            proof (cases "c = CHR ''{''")
              case True
              show ?thesis
              proof (cases "startsWith (skipWs r0) ''}''")
                case e: True
                with a n1 n2 n3 Cons q br True have "r = tl (skipWs r0)"
                  by (auto simp del: startsWith.simps)
                with tl_skipWs_le [of r0] Cons show ?thesis by simp
              next
                case e: False
                with a n1 n2 n3 Cons q br True obtain kvs where "parseMembers n [] (skipWs r0) = Some (kvs, r)"
                  by (auto simp del: startsWith.simps split: option.splits)
                from M [rule_format, OF this] length_skipWs [of r0] Cons show ?thesis by simp
              qed
            next
              case cb: False
              with a n1 n2 n3 Cons q br obtain x where "parseNumber s = Some (x, r)"
                by (auto simp del: startsWith.simps split: option.splits if_splits)
              from parseNumber_consumes [OF this] show ?thesis .
            qed
          qed
        qed
      qed
    qed
  qed
qed


lemma parseElements_Suc_consumes:
  assumes V: "\<forall>s v r. parseValue n s = Some (v, r) \<longrightarrow> length r < length s"
    and E: "\<forall>s vs r. parseElements n s = Some (vs, r) \<longrightarrow> length r < length s"
    and a: "parseElements (Suc n) s = Some (vs, r)"
  shows "length r < length s"
proof -
  from a obtain v r0 where v: "parseValue n s = Some (v, r0)"
    by (auto split: option.splits)
  from V [rule_format, OF v] have l: "length r0 < length s" .
  show ?thesis
  proof (cases "startsWith (skipWs r0) '',''")
    case True
    with a v obtain vs' where "parseElements n (skipWs (tl (skipWs r0))) = Some (vs', r)"
      by (auto simp del: startsWith.simps split: option.splits)
    from E [rule_format, OF this] skip_tl_skip_lt [OF True] l show ?thesis by simp
  next
    case False
    with a v have "r = tl (skipWs r0)"
      by (auto simp del: startsWith.simps split: option.splits if_splits)
    with tl_skipWs_le [of r0] l show ?thesis by simp
  qed
qed

lemma parseMembers_Suc_consumes:
  assumes V: "\<forall>s v r. parseValue n s = Some (v, r) \<longrightarrow> length r < length s"
    and M: "\<forall>acc s kvs r. parseMembers n acc s = Some (kvs, r) \<longrightarrow> length r < length s"
    and a: "parseMembers (Suc n) acc s = Some (kvs, r)"
  shows "length r < length s"
proof (cases s)
  case Nil
  with a show ?thesis by simp
next
  case (Cons c r0)
  with a have c: "c = CHR 0x22"
    by (auto split: if_splits)
  with a Cons obtain k r1 where k: "parseChars r0 = Some (k, r1)"
    by (auto split: option.splits)
  from parseChars_consumes [OF k] have l1: "length r1 < length r0" .
  from a Cons c k have colon: "startsWith (skipWs r1) '':''"
    by (auto simp del: startsWith.simps split: if_splits)
  with a Cons c k obtain v r2 where v: "parseValue n (skipWs (tl (skipWs r1))) = Some (v, r2)"
    by (auto simp del: startsWith.simps split: option.splits)
  from V [rule_format, OF v] skip_tl_skip_lt [OF colon] have l2: "length r2 < length r1" by simp
  show ?thesis
  proof (cases "startsWith (skipWs r2) '',''")
    case True
    with a Cons c k colon v have "parseMembers n (setProp k v acc) (skipWs (tl (skipWs r2))) = Some (kvs, r)"
      by (auto simp del: startsWith.simps)
    from M [rule_format, OF this] skip_tl_skip_lt [OF True] l1 l2 Cons show ?thesis by simp
  next
    case False
    with a Cons c k colon v have "r = tl (skipWs r2)"
      by (auto simp del: startsWith.simps split: if_splits)
    with tl_skipWs_le [of r2] l1 l2 Cons show ?thesis by simp
  qed
qed

lemma parse_consumes_all:
  "(\<forall>s v r. parseValue n s = Some (v, r) \<longrightarrow> length r < length s)
   \<and> (\<forall>s vs r. parseElements n s = Some (vs, r) \<longrightarrow> length r < length s)
   \<and> (\<forall>acc s kvs r. parseMembers n acc s = Some (kvs, r) \<longrightarrow> length r < length s)"
proof (induction n)
  case 0
  show ?case by simp
next
  case (Suc n)
  then have V: "\<forall>s v r. parseValue n s = Some (v, r) \<longrightarrow> length r < length s"
    and E: "\<forall>s vs r. parseElements n s = Some (vs, r) \<longrightarrow> length r < length s"
    and M: "\<forall>acc s kvs r. parseMembers n acc s = Some (kvs, r) \<longrightarrow> length r < length s"
    by simp_all
  show ?case
    using parseValue_Suc_consumes [OF E M] parseElements_Suc_consumes [OF V E]
      parseMembers_Suc_consumes [OF V M]
    by blast
qed

lemma parseValue_consumes: "parseValue n s = Some (v, r) \<Longrightarrow> length r < length s"
  using parse_consumes_all by blast

lemma parseValue_fuel_step:
  assumes E: "\<forall>s. 2 * length s + 1 < n \<longrightarrow> parseElements (Suc n) s = parseElements n s"
    and M: "\<forall>acc s. 2 * length s + 1 < n \<longrightarrow> parseMembers (Suc n) acc s = parseMembers n acc s"
    and b: "2 * length s < Suc n"
  shows "parseValue (Suc (Suc n)) s = parseValue (Suc n) s"
proof (cases s)
  case Nil
  then show ?thesis by simp
next
  case (Cons c r0)
  have "2 * length (skipWs r0) + 1 < n"
    using b Cons length_skipWs [of r0] by simp
  then have e: "parseElements (Suc n) (skipWs r0) = parseElements n (skipWs r0)"
    and m: "parseMembers (Suc n) [] (skipWs r0) = parseMembers n [] (skipWs r0)"
    using E M by simp_all
  show ?thesis
    unfolding Cons parseValue.simps list.case e m ..
qed

lemma parseElements_fuel_step:
  assumes V: "\<forall>s. 2 * length s < n \<longrightarrow> parseValue (Suc n) s = parseValue n s"
    and E: "\<forall>s. 2 * length s + 1 < n \<longrightarrow> parseElements (Suc n) s = parseElements n s"
    and b: "2 * length s + 1 < Suc n"
  shows "parseElements (Suc (Suc n)) s = parseElements (Suc n) s"
proof -
  have v: "parseValue (Suc n) s = parseValue n s"
    using V b by simp
  show ?thesis
  proof (cases "parseValue n s")
    case None
    with v show ?thesis by simp
  next
    case (Some p)
    obtain x r where p: "p = (x, r)" by (cases p)
    from parseValue_consumes [OF Some [unfolded p]] have l: "length r < length s" .
    show ?thesis
    proof (cases "startsWith (skipWs r) '',''")
      case True
      have "2 * length (skipWs (tl (skipWs r))) + 1 < n"
        using skip_tl_skip_lt [OF True] l b by simp
      then have "parseElements (Suc n) (skipWs (tl (skipWs r))) = parseElements n (skipWs (tl (skipWs r)))"
        using E by simp
      with v Some p True show ?thesis
        by (simp del: startsWith.simps)
    next
      case False
      with v Some p show ?thesis
        by (simp del: startsWith.simps)
    qed
  qed
qed

lemma parseMembers_fuel_step:
  assumes V: "\<forall>s. 2 * length s < n \<longrightarrow> parseValue (Suc n) s = parseValue n s"
    and M: "\<forall>acc s. 2 * length s + 1 < n \<longrightarrow> parseMembers (Suc n) acc s = parseMembers n acc s"
    and b: "2 * length s + 1 < Suc n"
  shows "parseMembers (Suc (Suc n)) acc s = parseMembers (Suc n) acc s"
proof (cases s)
  case Nil
  then show ?thesis by simp
next
  case (Cons c r0)
  show ?thesis
  proof (cases "parseChars r0")
    case None
    with Cons show ?thesis by simp
  next
    case (Some p)
    obtain k r1 where p: "p = (k, r1)" by (cases p)
    from parseChars_consumes [OF Some [unfolded p]] have l1: "length r1 < length r0" .
    show ?thesis
    proof (cases "startsWith (skipWs r1) '':''")
      case False
      with Cons Some p show ?thesis by (simp del: startsWith.simps)
    next
      case colon: True
      let ?a = "skipWs (tl (skipWs r1))"
      have la: "length ?a < length r1"
        using skip_tl_skip_lt [OF colon] .
      then have "2 * length ?a < n"
        using l1 b Cons by simp
      then have v: "parseValue (Suc n) ?a = parseValue n ?a"
        using V by simp
      show ?thesis
      proof (cases "parseValue n ?a")
        case None
        with Cons Some p colon v show ?thesis by (simp del: startsWith.simps)
      next
        case sv: (Some q)
        obtain x r2 where q: "q = (x, r2)" by (cases q)
        from parseValue_consumes [OF sv [unfolded q]] have l2: "length r2 < length ?a" .
        show ?thesis
        proof (cases "startsWith (skipWs r2) '',''")
          case True
          have "2 * length (skipWs (tl (skipWs r2))) + 1 < n"
            using skip_tl_skip_lt [OF True] l2 la l1 b Cons by simp
          then have "parseMembers (Suc n) (setProp k x acc) (skipWs (tl (skipWs r2)))
              = parseMembers n (setProp k x acc) (skipWs (tl (skipWs r2)))"
            using M by simp
          with Cons Some p colon v sv q True show ?thesis
            by (simp del: startsWith.simps)
        next
          case False
          with Cons Some p colon v sv q show ?thesis
            by (simp del: startsWith.simps)
        qed
      qed
    qed
  qed
qed

lemma parse_fuel_all:
  "(\<forall>s. 2 * length s < n \<longrightarrow> parseValue (Suc n) s = parseValue n s)
   \<and> (\<forall>s. 2 * length s + 1 < n \<longrightarrow> parseElements (Suc n) s = parseElements n s)
   \<and> (\<forall>acc s. 2 * length s + 1 < n \<longrightarrow> parseMembers (Suc n) acc s = parseMembers n acc s)"
proof (induction n)
  case 0
  show ?case by simp
next
  case (Suc n)
  then have V: "\<forall>s. 2 * length s < n \<longrightarrow> parseValue (Suc n) s = parseValue n s"
    and E: "\<forall>s. 2 * length s + 1 < n \<longrightarrow> parseElements (Suc n) s = parseElements n s"
    and M: "\<forall>acc s. 2 * length s + 1 < n \<longrightarrow> parseMembers (Suc n) acc s = parseMembers n acc s"
    by simp_all
  show ?case
    using parseValue_fuel_step [OF E M] parseElements_fuel_step [OF V E]
      parseMembers_fuel_step [OF V M]
    by blast
qed

text \<open>More fuel than twice the length of the text changes nothing.\<close>

lemma parseValue_fuel: "2 * length s < n \<Longrightarrow> parseValue (n + k) s = parseValue n s"
proof (induction k)
  case 0
  show ?case by simp
next
  case (Suc k)
  then have "2 * length s < n + k" by simp
  with parse_fuel_all [of "n + k"] have "parseValue (Suc (n + k)) s = parseValue (n + k) s"
    by blast
  with Suc show ?case by simp
qed

lemma JSON_parse_fuel:
  "JSON_parse s =
     (case parseValue (2 * length s + 2 + k) (skipWs s) of
        None \<Rightarrow> None
      | Some (v, rest) \<Rightarrow> if skipWs rest = [] then Some v else None)"
proof -
  have "2 * length (skipWs s) < 2 * length s + 2"
    using length_skipWs [of s] by simp
  from parseValue_fuel [OF this, of k] show ?thesis
    unfolding JSON_parse_def by simp
qed

section \<open>Facts about the parsers\<close>

text \<open>The two group accesses that could throw never do: the groups are always there.\<close>

lemma parseSwapUsage_Inr: "\<exists>r. parseSwapUsage out = Inr r"
  by (auto simp: parseSwapUsage_def group_def Let_def ngroups_swap_re
      split: option.splits dest!: String_match_length)

lemma pressure_match_group:
  "orElse (String_match out pressure_re1)
     (orElse (String_match out pressure_re2) (String_match out pressure_re3)) = Some m
   \<Longrightarrow> group m 1 = Some (m ! 1)"
  by (auto simp: orElse_def group_def ngroups_pressure
      split: option.splits dest!: String_match_length)

lemma parsePmsetTherm_Inr: "\<exists>r. parsePmsetTherm out = Inr r"
  by (auto simp: parsePmsetTherm_def Let_def split: option.splits sum.splits
      dest: pressure_match_group)

lemmas cmd_defs = gpu_cmd_def memory_pressure_cmd_def swap_cmd_def pmset_cmd_def smc_cmd_def m4temp_cmd_def

text \<open>The text of a run: standard output followed by standard error.\<close>

lemma getThermals_runs:
  assumes "run Bun_spawn pmset_cmd 3000 = Inr a"
    and "run Bun_spawn smc_cmd 8000 = Inr b"
    and "run Bun_spawn m4temp_cmd 4000 = Inr c"
  shows "\<exists>p r. parsePmsetTherm (stdout a @ stderr a @ nl @ stdout b @ stderr b) = Inr p
           \<and> getThermals Bun_spawn = Inr r
           \<and> cpu_speed_limit_pct (stats r) = cpuLim p
           \<and> gpu_speed_limit_pct (stats r) = gpuLim p
           \<and> thermal_pressure (stats r) = pmset_pressure p
           \<and> cpu_temp_c (stats r) = cpu_die (sensorFallback (parsePowermetricsSMCTemps (stdout b @ stderr b)) (ok c) (stdout c @ stderr c))
           \<and> gpu_temp_c (stats r) = gpu_die (sensorFallback (parsePowermetricsSMCTemps (stdout b @ stderr b)) (ok c) (stdout c @ stderr c))
           \<and> soc_temp_c (stats r) = soc_die (sensorFallback (parsePowermetricsSMCTemps (stdout b @ stderr b)) (ok c) (stdout c @ stderr c))
           \<and> source (stats r) = \<lparr> pmset_ok = ok a, powermetrics_smc_ok = ok b, m4_temp_ok = ok c \<rparr>
           \<and> probe_ok r = (ok a \<or> ok b \<or> ok c)"
proof -
  obtain p where "parsePmsetTherm (stdout a @ stderr a @ nl @ stdout b @ stderr b) = Inr p"
    using parsePmsetTherm_Inr by blast
  with assms show ?thesis
    by (simp add: getThermals_def Let_def)
qed

lemma getThermals_InrD:
  assumes "getThermals Bun_spawn = Inr r"
  shows "\<exists>a b c. run Bun_spawn pmset_cmd 3000 = Inr a \<and> run Bun_spawn smc_cmd 8000 = Inr b
            \<and> run Bun_spawn m4temp_cmd 4000 = Inr c"
  using assms by (auto simp: getThermals_def split: sum.splits)

lemma parsePmsetTherm_gpuLim:
  "parsePmsetTherm out = Inr p \<Longrightarrow>
     gpuLim p = Some (case matchNumber out gpu_limit_re of None \<Rightarrow> Finite 100 | Some v \<Rightarrow> v)"
  by (auto simp: parsePmsetTherm_def Let_def split: sum.splits option.splits)

lemma matchNumber_None: "String_match hay re = None \<Longrightarrow> matchNumber hay re = None"
  by (simp add: matchNumber_def)

lemma parsePmsetTherm_fields:
  assumes "parsePmsetTherm out = Inr r"
  shows "cpuLim r = orElse (matchNumber out cpu_limit_re)
            (if String_includes out ''No CPU power status has been recorded'' then Some (Finite 100) else None)"
    and "orElse (String_match out pressure_re1)
           (orElse (String_match out pressure_re2) (String_match out pressure_re3)) = None \<Longrightarrow>
         pmset_pressure r =
           (if String_includes out ''No thermal warning level has been recorded'' \<or> String_includes out ''Nominal''
            then Nominal else UnknownLevel)"
  using assms by (auto simp: parsePmsetTherm_def Let_def split: sum.splits option.splits)

lemma cap_pieces_swap_re: "cap_pieces swap_re = [(Plus, Cls DigitDot), (One, Cls MG)]"
  by (simp add: swap_re_def cap_pieces_append cap_pieces_lit spaces_def number_group_def)

lemma matchNumber_nonneg:
  assumes "cap_pieces re = [(Plus, Cls DigitDot)]" and "matchNumber hay re = Some n"
  shows "\<exists>x. n = Finite x \<and> 0 \<le> x"
proof -
  from assms(2) obtain m where m: "String_match hay re = Some m"
      and n: "n = Number_of (group m 1)" and fin: "Number_isFinite n"
    by (auto simp: matchNumber_def Let_def split: option.splits if_splits)
  from m assms(1) obtain m0 caps where "m = m0 # caps"
      and "list_all2 cap_ok [(Plus, Cls DigitDot)] caps"
    unfolding String_match_def using searchFrom_shapes by metis
  then obtain v where mv: "m = [m0, v]" and v: "list_all isDigitDot v" "v \<noteq> []"
    by (auto simp: list_all2_Cons1 cap_ok_def list_all_iff)
  from n mv have nv: "n = Number v"
    by (simp add: group_def Number_of_def)
  from fin obtain x where x: "n = Finite x"
    by (cases n) (simp_all add: Number_isFinite_def)
  with nv have "Number v = Finite x" by simp
  then have "0 \<le> x" by (rule Number_digitdot_nonneg [OF v])
  with x show ?thesis by blast
qed

lemma cap_pieces_gpu:
  "cap_pieces gpu_freq_re = [(Plus, Cls DigitDot)]"
  "cap_pieces gpu_active_re = [(Plus, Cls DigitDot)]"
  "cap_pieces gpu_idle_re = [(Plus, Cls DigitDot)]"
  "cap_pieces gpu_power_re = [(Plus, Cls DigitDot)]"
  by (simp_all add: gpu_freq_re_def gpu_active_re_def gpu_idle_re_def gpu_power_re_def
      cap_pieces_append cap_pieces_lit spaces_def number_group_def)

lemma parsePowermetricsGPU_nonneg:
  "active_pct (parsePowermetricsGPU out) = Some n \<Longrightarrow> \<exists>x. n = Finite x \<and> 0 \<le> x"
  "idle_pct (parsePowermetricsGPU out) = Some n \<Longrightarrow> \<exists>x. n = Finite x \<and> 0 \<le> x"
  by (auto simp: parsePowermetricsGPU_def dest: matchNumber_nonneg [OF cap_pieces_gpu(2)]
      matchNumber_nonneg [OF cap_pieces_gpu(3)])

lemma swap_match_shape:
  assumes "String_match s swap_re = Some m"
  shows "\<exists>m0 v c. m = [m0, v, [c]] \<and> v \<noteq> [] \<and> list_all isDigitDot v
           \<and> (upper_char c = CHR ''M'' \<or> upper_char c = CHR ''G'')"
proof -
  from assms obtain m0 caps where m: "m = m0 # caps"
      and l: "list_all2 cap_ok [(Plus, Cls DigitDot), (One, Cls MG)] caps"
    unfolding String_match_def using searchFrom_shapes cap_pieces_swap_re by metis
  from l obtain v u where caps: "caps = [v, u]" and v: "cap_ok (Plus, Cls DigitDot) v"
      and u: "cap_ok (One, Cls MG) u"
    by (auto simp: list_all2_Cons1)
  from u obtain c where "u = [c]" and "upper_char c = CHR ''M'' \<or> upper_char c = CHR ''G''"
    by (cases u) (auto simp: cap_ok_def)
  with m caps v show ?thesis
    by (auto simp: cap_ok_def list_all_iff)
qed

lemma parsePmsetTherm_gpuLim_Finite:
  "parsePmsetTherm out = Inr p \<Longrightarrow> \<exists>x. gpuLim p = Some (Finite x)"
  using parsePmsetTherm_gpuLim [of out p] matchNumber_Finite [of out gpu_limit_re]
  by (auto split: option.splits)

lemma String_match_empty:
  "String_match [] swap_re = None" "String_match [] gpu_limit_re = None"
  "String_match [] cpu_limit_re = None" "String_match [] pressure_re1 = None"
  "String_match [] pressure_re2 = None" "String_match [] pressure_re3 = None"
  "String_match [] gpu_freq_re = None" "String_match [] gpu_active_re = None"
  "String_match [] gpu_idle_re = None" "String_match [] gpu_power_re = None"
  "String_match [] (temp_re ''CPU die temperature:'') = None"
  "String_match [] (temp_re ''CPU temperature:'') = None"
  "String_match [] (temp_re ''GPU die temperature:'') = None"
  "String_match [] (temp_re ''GPU temperature:'') = None"
  "String_match [] (temp_re ''SoC die temperature:'') = None"
  "String_match [] (temp_re ''SOC die temperature:'') = None"
  "String_match [] (temp_re ''PMU die temperature:'') = None"
  by (simp_all add: swap_re_def gpu_limit_re_def cpu_limit_re_def pressure_re1_def pressure_re2_def
      pressure_re3_def gpu_freq_re_def gpu_active_re_def gpu_idle_re_def gpu_power_re_def temp_re_def
      String_match_def lit_def matchFrom_One_Nil del: matchFrom.simps(3,4))

lemma sensorFallback_not_applied:
  "\<not> (cpu_die t = None \<and> gpu_die t = None \<and> soc_die t = None \<and> m4ok) \<Longrightarrow>
     sensorFallback t m4ok m4Raw = t"
  by (auto simp: sensorFallback_def)

lemma sensorFallback_throws:
  "tryFallback t m4Raw = Inl e \<Longrightarrow> sensorFallback t m4ok m4Raw = t"
  by (simp add: sensorFallback_def)

lemma sensorFallback_parse_failure:
  "JSON_parse m4Raw = None \<Longrightarrow> sensorFallback t m4ok m4Raw = t"
  by (simp add: sensorFallback_def tryFallback_def)

lemma coerceAll_numbers: "coerceAll (map JNum xs) = Inr xs"
  by (induction xs) simp_all

lemma sensorFallback_identical:
  assumes "cpu_die t = None \<and> gpu_die t = None \<and> soc_die t = None"
  shows "cpu_die (sensorFallback t m4ok m4Raw) = gpu_die (sensorFallback t m4ok m4Raw)
       \<and> gpu_die (sensorFallback t m4ok m4Raw) = soc_die (sensorFallback t m4ok m4Raw)"
  using assms
  by (auto simp: sensorFallback_def tryFallback_def split: option.splits sum.splits)

lemma sensorFallback_numbers:
  assumes "cpu_die t = None \<and> gpu_die t = None \<and> soc_die t = None \<and> m4ok"
    and "JSON_parse m4Raw = Some (JObj kvs)" and "kvs \<noteq> []"
    and "map snd kvs = map (\<lambda>x. JNum (Finite x)) xs"
  shows "sensorFallback t m4ok m4Raw =
           t\<lparr> cpu_die := Some (Finite (Max (set xs))), soc_die := Some (Finite (Max (set xs))),
              gpu_die := Some (Finite (Max (set xs))) \<rparr>"
proof -
  from assms(3,4) have ne: "xs \<noteq> []" by auto
  have "map snd kvs = map JNum (map Finite xs)"
    unfolding assms(4) by simp
  then have "coerceAll (map snd kvs) = Inr (map Finite xs)"
    by (simp only: coerceAll_numbers)
  with Math_max_Finite [OF ne] have "Math_max_spread (map snd kvs) = Inr (Finite (Max (set xs)))"
    by (simp add: Math_max_spread_def)
  with assms ne show ?thesis
    by (simp add: sensorFallback_def tryFallback_def)
qed

text \<open>
  The fallback on four helper outputs: a key written with a \<open>\u\<close> escape, a value that is
  a numeric string beside arrays and a boolean, a value whose conversion to a number
  throws, and the value null.
\<close>

lemmas conv_eval = Math_max_spread_def Math_max_def StringToNumber_def isSpaceUnit_def
  hasOwnProperty_def tryFallback_def sensorFallback_def

lemma sensorFallback_examples:
  "sensorFallback \<lparr>cpu_die = None, gpu_die = None, soc_die = None\<rparr> True
     (''{\"'' @ CHR 0x5C # ''u2103\":50}'')
   = \<lparr>cpu_die = Some (Finite 50), gpu_die = Some (Finite 50), soc_die = Some (Finite 50)\<rparr>"
  "sensorFallback \<lparr>cpu_die = None, gpu_die = None, soc_die = None\<rparr> True
     ''{\"a\":\" 50 \",\"b\":[[7]],\"c\":[null],\"d\":true}''
   = \<lparr>cpu_die = Some (Finite 50), gpu_die = Some (Finite 50), soc_die = Some (Finite 50)\<rparr>"
  "sensorFallback \<lparr>cpu_die = None, gpu_die = None, soc_die = None\<rparr> True
     ''{\"a\":{\"toString\":1}}''
   = \<lparr>cpu_die = None, gpu_die = None, soc_die = None\<rparr>"
  "sensorFallback \<lparr>cpu_die = None, gpu_die = None, soc_die = None\<rparr> True ''null''
   = \<lparr>cpu_die = None, gpu_die = None, soc_die = None\<rparr>"
  by (simp_all add: json_eval conv_eval num_eval char_eval)

lemma parsePowermetricsSMCTemps_empty:
  "parsePowermetricsSMCTemps [] = \<lparr> cpu_die = None, gpu_die = None, soc_die = None \<rparr>"
  by (simp add: parsePowermetricsSMCTemps_def matchNumber_def orElse_def temp_re_def re_eval
      del: matchFrom.simps(3,4))

subsection \<open>Where the matcher finds a well-formed token\<close>

lemma before_Cons: "before (Some c) cs = before prev (c # cs)"
  by (simp add: before_def)

lemma before_append: "before (before prev u) w = before prev (u @ w)"
  by (simp add: before_def)

lemma run_length_stop:
  assumes "list_all (atom_matches a) w" and "rest = [] \<or> \<not> atom_matches a (hd rest)"
  shows "run_length a (w @ rest) = length w"
proof -
  have "takeWhile (atom_matches a) rest = []"
    using assms(2) by (cases rest) auto
  moreover have "takeWhile (atom_matches a) (w @ rest) = w @ takeWhile (atom_matches a) rest"
    using assms(1) by (intro takeWhile_append2) (simp add: list_all_iff)
  ultimately show ?thesis by (simp add: run_length_def)
qed

lemma matchFrom_Star_greedy:
  assumes "list_all (atom_matches a) w" and "rest = [] \<or> \<not> atom_matches a (hd rest)"
    and "matchFrom ps (before prev w) rest = Some (n, caps)"
  shows "matchFrom (Match Star a # ps) prev (w @ rest) = Some (length w + n, caps)"
proof -
  have "rev [0..<Suc (run_length a (w @ rest))] = length w # rev [0..<length w]"
    by (simp add: run_length_stop [OF assms(1,2)])
  with assms(3) show ?thesis by simp
qed

lemma matchFrom_Plus_greedy:
  assumes "list_all (atom_matches a) w" and "w \<noteq> []"
    and "rest = [] \<or> \<not> atom_matches a (hd rest)"
    and "matchFrom ps (before prev w) rest = Some (n, caps)"
  shows "matchFrom (Capture Plus a # ps) prev (w @ rest) = Some (length w + n, w # caps)"
proof -
  from assms(2) have "1 \<le> length w" by (cases w) auto
  then have "rev [1..<Suc (run_length a (w @ rest))] = length w # rev [1..<length w]"
    by (simp add: run_length_stop [OF assms(1,3)])
  with assms(4) show ?thesis by simp
qed

lemma matchFrom_lit:
  assumes "map upper_char w = map upper_char l"
    and "matchFrom ps (before prev w) rest = Some (n, caps)"
  shows "matchFrom (lit l @ ps) prev (w @ rest) = Some (length w + n, caps)"
  using assms
proof (induction l arbitrary: w prev)
  case Nil
  then show ?case by (simp add: lit_def before_def)
next
  case (Cons x l)
  from Cons.prems(1) obtain c cs where w: "w = c # cs" and c: "upper_char c = upper_char x"
      and cs: "map upper_char cs = map upper_char l"
    by (cases w) auto
  from Cons.prems(2) w have "matchFrom ps (before (Some c) cs) rest = Some (n, caps)"
    by (simp add: before_Cons [of c cs prev])
  from Cons.IH [OF cs this] have "matchFrom (lit l @ ps) (Some c) (cs @ rest) = Some (length cs + n, caps)" .
  with w c show ?case
    by (simp add: lit_def matchFrom_One_Cons del: matchFrom.simps(3,4))
qed

lemma code_char_of: "code (char_of n) = n mod 256"
  by (simp add: code_def)

lemma upper_char_letter:
  assumes "65 \<le> code (upper_char c)" and "code (upper_char c) \<le> 90"
  shows "isLetter c"
proof (cases "(97 \<le> code c \<and> code c \<le> 122) \<or> (224 \<le> code c \<and> code c \<le> 254 \<and> code c \<noteq> 247)")
  case True
  then have u: "code (upper_char c) = (code c - 32) mod 256"
    by (simp add: upper_char_def code_char_of)
  from True show ?thesis
  proof
    assume "97 \<le> code c \<and> code c \<le> 122"
    then show ?thesis by (simp add: isLetter_def)
  next
    assume h: "224 \<le> code c \<and> code c \<le> 254 \<and> code c \<noteq> 247"
    then have "(code c - 32) mod 256 = code c - 32" by (intro mod_less) arith
    with u h assms(2) have False by arith
    then show ?thesis ..
  qed
next
  case False
  then have "upper_char c = c" unfolding upper_char_def by (simp only: if_False)
  with assms show ?thesis by (simp add: isLetter_def)
qed

lemma unit_letter:
  assumes "upper_char c = CHR ''M'' \<or> upper_char c = CHR ''G''"
  shows "isLetter c"
proof -
  from assms have "code (upper_char c) = 77 \<or> code (upper_char c) = 71"
    by (auto simp: code_def)
  then show ?thesis
    by (intro upper_char_letter) auto
qed

lemma letter_not_digitdot: "isLetter c \<Longrightarrow> \<not> isDigitDot c"
  by (auto simp: isLetter_def dest!: digitdot_code)

lemma letter_word: "isLetter c \<Longrightarrow> isWord c"
  by (simp add: isWord_def)

lemma equals_not_space: "\<not> isSpace (CHR ''='')"
  by (simp add: isSpace_def code_def)

lemma atom_matches_cls:
  "atom_matches (Cls DigitDot) = isDigitDot" "atom_matches (Cls Space) = isSpace"
  by (rule ext, simp)+

lemma swap_re_unfold:
  "swap_re = lit ''used'' @ [Match Star (Cls Space), Match One (Chr (CHR ''='')), Match Star (Cls Space),
      Capture Plus (Cls DigitDot), Capture One (Cls MG), WordBoundary]"
  "swap_re = Match One (Chr (CHR ''u'')) # (lit ''sed'' @ [Match Star (Cls Space),
      Match One (Chr (CHR ''='')), Match Star (Cls Space),
      Capture Plus (Cls DigitDot), Capture One (Cls MG), WordBoundary])"
  by (simp_all add: swap_re_def spaces_def number_group_def lit_def)

text \<open>A well-formed token is matched where it stands, with its value and unit as groups.\<close>

lemma swap_token_match:
  assumes u: "map upper_char u = ''USED''"
    and ws1: "list_all isSpace ws1" and ws2: "list_all isSpace ws2"
    and v: "v \<noteq> []" "list_all isDigitDot v"
    and c: "upper_char c = CHR ''M'' \<or> upper_char c = CHR ''G''"
    and post: "post = [] \<or> \<not> isWord (hd post)"
  shows "matchFrom swap_re prev (u @ ws1 @ ''='' @ ws2 @ v @ [c] @ post)
           = Some (length (u @ ws1 @ ''='' @ ws2 @ v @ [c]), [v, [c]])"
proof -
  have cl: "isLetter c" using c by (rule unit_letter)
  have b: "atBoundary (Some c) post"
    using post letter_word [OF cl] by (cases post) (auto simp: atBoundary_def)
  have s5: "matchFrom [Capture One (Cls MG), WordBoundary] p (c # post) = Some (1, [[c]])" for p
    using c b by (simp add: matchFrom_One_Cons del: matchFrom.simps(3,4))
  have s4: "matchFrom [Capture Plus (Cls DigitDot), Capture One (Cls MG), WordBoundary] p (v @ c # post)
      = Some (length v + 1, [v, [c]])" for p
  proof (rule matchFrom_Plus_greedy)
    show "list_all (atom_matches (Cls DigitDot)) v" using v(2) by (simp add: atom_matches_cls)
    show "v \<noteq> []" by (rule v(1))
    show "c # post = [] \<or> \<not> atom_matches (Cls DigitDot) (hd (c # post))"
      using letter_not_digitdot [OF cl] by simp
    show "matchFrom [Capture One (Cls MG), WordBoundary] (before p v) (c # post) = Some (1, [[c]])"
      by (rule s5)
  qed
  have hv: "\<not> isSpace (hd (v @ c # post))"
    using v by (cases v) (auto simp: digitdot_not_space)
  have s3: "matchFrom [Match Star (Cls Space), Capture Plus (Cls DigitDot), Capture One (Cls MG), WordBoundary]
      p (ws2 @ v @ c # post) = Some (length ws2 + (length v + 1), [v, [c]])" for p
  proof (rule matchFrom_Star_greedy)
    show "list_all (atom_matches (Cls Space)) ws2" using ws2 by (simp add: atom_matches_cls)
    show "v @ c # post = [] \<or> \<not> atom_matches (Cls Space) (hd (v @ c # post))"
      using hv by simp
    show "matchFrom [Capture Plus (Cls DigitDot), Capture One (Cls MG), WordBoundary] (before p ws2)
        (v @ c # post) = Some (length v + 1, [v, [c]])"
      by (rule s4)
  qed
  have s2: "matchFrom [Match One (Chr (CHR ''='')), Match Star (Cls Space), Capture Plus (Cls DigitDot),
      Capture One (Cls MG), WordBoundary] p (CHR ''='' # ws2 @ v @ c # post)
      = Some (Suc (length ws2 + (length v + 1)), [v, [c]])" for p
    using s3 by (simp add: matchFrom_One_Cons del: matchFrom.simps(3,4))
  have s1: "matchFrom [Match Star (Cls Space), Match One (Chr (CHR ''='')), Match Star (Cls Space),
      Capture Plus (Cls DigitDot), Capture One (Cls MG), WordBoundary] p
      (ws1 @ CHR ''='' # ws2 @ v @ c # post)
      = Some (length ws1 + Suc (length ws2 + (length v + 1)), [v, [c]])" for p
  proof (rule matchFrom_Star_greedy)
    show "list_all (atom_matches (Cls Space)) ws1" using ws1 by (simp add: atom_matches_cls)
    show "CHR ''='' # ws2 @ v @ c # post = [] \<or>
        \<not> atom_matches (Cls Space) (hd (CHR ''='' # ws2 @ v @ c # post))"
      using equals_not_space by simp
    show "matchFrom [Match One (Chr (CHR ''='')), Match Star (Cls Space), Capture Plus (Cls DigitDot),
        Capture One (Cls MG), WordBoundary] (before p ws1) (CHR ''='' # ws2 @ v @ c # post)
        = Some (Suc (length ws2 + (length v + 1)), [v, [c]])"
      by (rule s2)
  qed
  have up: "map upper_char u = map upper_char ''used''"
    using u by (simp add: upper_char_def char_eval)
  have "matchFrom swap_re prev (u @ (ws1 @ CHR ''='' # ws2 @ v @ c # post))
      = Some (length u + (length ws1 + Suc (length ws2 + (length v + 1))), [v, [c]])"
    unfolding swap_re_unfold(1) using up s1 by (rule matchFrom_lit)
  then show ?thesis by simp
qed

subsection \<open>The swap pattern matches exactly the tokens\<close>

lemma takeWhile_run:
  assumes "list_all P w" and "rest = [] \<or> \<not> P (hd rest)"
  shows "takeWhile P (w @ rest) = w" and "dropWhile P (w @ rest) = rest"
proof -
  have a: "\<And>x. x \<in> set w \<Longrightarrow> P x" using assms(1) by (simp add: list_all_iff)
  have b: "takeWhile P rest = []" "dropWhile P rest = rest"
    using assms(2) by (cases rest; simp)+
  show "takeWhile P (w @ rest) = w" using a b by (simp add: takeWhile_append2)
  show "dropWhile P (w @ rest) = rest" using a b by (simp add: dropWhile_append2)
qed

lemma if_Some_None_eq: "((if b then Some y else None) = Some z) = (b \<and> y = z)"
  by simp

lemma list_all_takeWhile: "list_all P (takeWhile P xs)"
  by (induction xs) simp_all

text \<open>What the scanner accepts, in words of the text alone.\<close>

lemma swap_token_here_iff:
  "swap_token_here t = Some (tok, v, c) \<longleftrightarrow>
     (\<exists>u ws1 ws2 post. t = tok @ post \<and> tok = u @ ws1 @ ''='' @ ws2 @ v @ [c]
        \<and> map upper_char u = ''USED'' \<and> list_all isSpace ws1 \<and> list_all isSpace ws2
        \<and> v \<noteq> [] \<and> list_all isDigitDot v
        \<and> (upper_char c = CHR ''M'' \<or> upper_char c = CHR ''G'')
        \<and> (post = [] \<or> \<not> isWord (hd post)))"
  (is "?L \<longleftrightarrow> ?R")
proof
  assume ?L
  define u where "u = take 4 t"
  define ws1 where "ws1 = takeWhile isSpace (drop 4 t)"
  define r1 where "r1 = dropWhile isSpace (drop 4 t)"
  define ws2 where "ws2 = takeWhile isSpace (tl r1)"
  define r2 where "r2 = dropWhile isSpace (tl r1)"
  define v' where "v' = takeWhile isDigitDot r2"
  define r3 where "r3 = dropWhile isDigitDot r2"
  have eq: "swap_token_here t =
      (if map upper_char u = ''USED'' \<and> r1 \<noteq> [] \<and> hd r1 = CHR ''='' \<and> v' \<noteq> [] \<and> r3 \<noteq> []
            \<and> (upper_char (hd r3) = CHR ''M'' \<or> upper_char (hd r3) = CHR ''G'')
            \<and> (tl r3 = [] \<or> \<not> isWord (hd (tl r3)))
       then Some (u @ ws1 @ ''='' @ ws2 @ v' @ [hd r3], v', hd r3) else None)"
    unfolding swap_token_here_def Let_def u_def ws1_def r1_def ws2_def r2_def v'_def r3_def
    by (rule refl)
  from \<open>?L\<close> have big: "(map upper_char u = ''USED'' \<and> r1 \<noteq> [] \<and> hd r1 = CHR ''='' \<and> v' \<noteq> [] \<and> r3 \<noteq> []
            \<and> (upper_char (hd r3) = CHR ''M'' \<or> upper_char (hd r3) = CHR ''G'')
            \<and> (tl r3 = [] \<or> \<not> isWord (hd (tl r3))))
        \<and> u @ ws1 @ ''='' @ ws2 @ v' @ [hd r3] = tok \<and> v' = v \<and> hd r3 = c"
    unfolding eq if_Some_None_eq prod.inject .
  from big have c1: "map upper_char u = ''USED''" by (elim conjE)
  from big have c2: "r1 \<noteq> []" by (elim conjE)
  from big have c3: "hd r1 = CHR ''=''" by (elim conjE)
  from big have c4: "v' \<noteq> []" by (elim conjE)
  from big have c5: "r3 \<noteq> []" by (elim conjE)
  from big have c6: "upper_char (hd r3) = CHR ''M'' \<or> upper_char (hd r3) = CHR ''G''" by (elim conjE)
  from big have c7: "tl r3 = [] \<or> \<not> isWord (hd (tl r3))" by (elim conjE)
  from big have res1: "u @ ws1 @ ''='' @ ws2 @ v' @ [hd r3] = tok" by (elim conjE)
  from big have res2: "v' = v" by (elim conjE)
  from big have res3: "hd r3 = c" by (elim conjE)
  have t1: "t = u @ ws1 @ r1"
    unfolding u_def ws1_def r1_def by simp
  have t2: "r1 = CHR ''='' # ws2 @ r2"
    using c2 c3 unfolding ws2_def r2_def by (cases r1) simp_all
  have t3: "r2 = v' @ r3"
    unfolding v'_def r3_def by simp
  have t4: "hd r3 # tl r3 = r3"
    using c5 by simp
  have "u @ ws1 @ CHR ''='' # ws2 @ v' @ hd r3 # tl r3 = t"
    unfolding t4 t3 [symmetric] t2 [symmetric] t1 [symmetric] ..
  then have R1: "t = tok @ tl r3"
    unfolding res1 [symmetric] by simp
  have R2: "tok = u @ ws1 @ ''='' @ ws2 @ v @ [c]"
    unfolding res2 [symmetric] res3 [symmetric] by (rule res1 [symmetric])
  have R3: "list_all isSpace ws1" "list_all isSpace ws2"
    unfolding ws1_def ws2_def by (rule list_all_takeWhile)+
  have R4: "list_all isDigitDot v"
    unfolding res2 [symmetric] v'_def by (rule list_all_takeWhile)
  have R5: "v \<noteq> []"
    unfolding res2 [symmetric] by (rule c4)
  have R6: "upper_char c = CHR ''M'' \<or> upper_char c = CHR ''G''"
    unfolding res3 [symmetric] by (rule c6)
  have R7: "tl r3 = [] \<or> \<not> isWord (hd (tl r3))"
    by (rule c7)
  show ?R
    by (intro exI [of _ u] exI [of _ ws1] exI [of _ ws2] exI [of _ "tl r3"] conjI)
       (rule R1 R2 c1 R3 R4 R5 R6 R7)+
next
  assume ?R
  then obtain u ws1 ws2 post where t: "t = tok @ post" and tok: "tok = u @ ws1 @ ''='' @ ws2 @ v @ [c]"
    and u: "map upper_char u = ''USED''" and ws: "list_all isSpace ws1" "list_all isSpace ws2"
    and v: "v \<noteq> []" "list_all isDigitDot v"
    and c: "upper_char c = CHR ''M'' \<or> upper_char c = CHR ''G''"
    and post: "post = [] \<or> \<not> isWord (hd post)"
    by (elim exE conjE) (rule that; assumption)
  have lu: "length u = 4"
    using arg_cong [OF u, of length] by simp
  have tt: "t = u @ (ws1 @ CHR ''='' # (ws2 @ (v @ c # post)))"
    using t tok by simp
  have a: "take 4 t = u" "drop 4 t = ws1 @ CHR ''='' # (ws2 @ (v @ c # post))"
    unfolding tt using lu by simp_all
  have b: "takeWhile isSpace (drop 4 t) = ws1" "dropWhile isSpace (drop 4 t) = CHR ''='' # (ws2 @ (v @ c # post))"
    unfolding a(2) using ws(1) equals_not_space by (intro takeWhile_run; simp)+
  have hv: "\<not> isSpace (hd (v @ c # post))"
    using v by (cases v) (auto simp: digitdot_not_space)
  have d: "takeWhile isSpace (ws2 @ (v @ c # post)) = ws2" "dropWhile isSpace (ws2 @ (v @ c # post)) = v @ c # post"
    using ws(2) hv by (intro takeWhile_run; simp)+
  have cl: "\<not> isDigitDot c"
    using c by (intro letter_not_digitdot unit_letter)
  have e: "takeWhile isDigitDot (v @ c # post) = v" "dropWhile isDigitDot (v @ c # post) = c # post"
    using v(2) cl by (intro takeWhile_run; simp)+
  show ?L
    unfolding swap_token_here_def Let_def a(1) b list.sel d e
    using u v(1) c post tok by simp
qed

lemma swap_token_here_Nil: "swap_token_here [] = None"
  by (simp add: swap_token_here_def)

lemma swap_token_here_prefix:
  "swap_token_here t = Some (tok, v, c) \<Longrightarrow> take (length tok) t = tok"
proof -
  assume "swap_token_here t = Some (tok, v, c)"
  then obtain post where "t = tok @ post"
    unfolding swap_token_here_iff by (elim exE conjE)
  then show ?thesis by simp
qed

lemma matchFrom_One_SomeD:
  assumes "matchFrom (Match One a # ps) prev t = Some (n, caps)"
  shows "\<exists>c rest n'. t = c # rest \<and> atom_matches a c \<and> matchFrom ps (Some c) rest = Some (n', caps)
           \<and> n = Suc n'"
proof (cases t)
  case Nil
  with assms show ?thesis by (simp add: matchFrom_One_Nil del: matchFrom.simps(3,4))
next
  case (Cons c rest)
  with assms show ?thesis
    by (auto simp: matchFrom_One_Cons simp del: matchFrom.simps(3,4) split: if_splits option.splits)
qed

lemma matchFrom_CaptureOne_SomeD:
  assumes "matchFrom (Capture One a # ps) prev t = Some (n, caps)"
  shows "\<exists>c rest n' caps'. t = c # rest \<and> atom_matches a c
           \<and> matchFrom ps (Some c) rest = Some (n', caps') \<and> n = Suc n' \<and> caps = [c] # caps'"
proof (cases t)
  case Nil
  with assms show ?thesis by (simp add: matchFrom_One_Nil del: matchFrom.simps(3,4))
next
  case (Cons c rest)
  with assms show ?thesis
    by (auto simp: matchFrom_One_Cons simp del: matchFrom.simps(3,4) split: if_splits option.splits)
qed

lemma matchFrom_Star_SomeD:
  assumes "matchFrom (Match Star a # ps) prev t = Some (n, caps)"
  shows "\<exists>w rest n'. t = w @ rest \<and> list_all (atom_matches a) w
           \<and> matchFrom ps (before prev w) rest = Some (n', caps) \<and> n = length w + n'"
proof -
  from assms have "firstSome
       (\<lambda>k. case matchFrom ps (before prev (take k t)) (drop k t) of
               None \<Rightarrow> None
             | Some (n, caps) \<Rightarrow> Some (k + n, caps))
       (lens Star a t) = Some (n, caps)"
    by (simp only: matchFrom.simps)
  from firstSome_SomeD [OF this] obtain k where k: "k \<in> set (lens Star a t)" and
    "(case matchFrom ps (before prev (take k t)) (drop k t) of
        None \<Rightarrow> None | Some (n, caps) \<Rightarrow> Some (k + n, caps)) = Some (n, caps)"
    by blast
  then obtain n' where m: "matchFrom ps (before prev (take k t)) (drop k t) = Some (n', caps)"
    and n: "n = k + n'"
    by (auto split: option.splits)
  from lens_bound [OF k] have b: "k \<le> run_length a t" by simp
  from take_run_length [OF b] have "list_all (atom_matches a) (take k t)" "length (take k t) = k" .
  with m n show ?thesis
    by (intro exI [of _ "take k t"] exI [of _ "drop k t"] exI [of _ n']) simp
qed

lemma matchFrom_Plus_SomeD:
  assumes "matchFrom (Capture Plus a # ps) prev t = Some (n, caps)"
  shows "\<exists>w rest n' caps'. t = w @ rest \<and> w \<noteq> [] \<and> list_all (atom_matches a) w
           \<and> matchFrom ps (before prev w) rest = Some (n', caps') \<and> n = length w + n'
           \<and> caps = w # caps'"
proof -
  from assms have "firstSome
       (\<lambda>k. case matchFrom ps (before prev (take k t)) (drop k t) of
               None \<Rightarrow> None
             | Some (n, caps) \<Rightarrow> Some (k + n, take k t # caps))
       (lens Plus a t) = Some (n, caps)"
    by (simp only: matchFrom.simps)
  from firstSome_SomeD [OF this] obtain k where k: "k \<in> set (lens Plus a t)" and
    "(case matchFrom ps (before prev (take k t)) (drop k t) of
        None \<Rightarrow> None | Some (n, caps) \<Rightarrow> Some (k + n, take k t # caps)) = Some (n, caps)"
    by blast
  then obtain n' caps' where m: "matchFrom ps (before prev (take k t)) (drop k t) = Some (n', caps')"
    and n: "n = k + n'" and c: "caps = take k t # caps'"
    by (auto split: option.splits)
  from lens_bound [OF k] have b: "k \<le> run_length a t" and k1: "1 \<le> k" by simp_all
  from take_run_length [OF b] have l: "list_all (atom_matches a) (take k t)" "length (take k t) = k" .
  from l(2) k1 have "take k t \<noteq> []" by auto
  with m n c l show ?thesis
    by (intro exI [of _ "take k t"] exI [of _ "drop k t"] exI [of _ n'] exI [of _ caps']) simp
qed

lemma matchFrom_lit_SomeD:
  assumes "matchFrom (lit l @ ps) prev t = Some (n, caps)"
  shows "\<exists>w rest n'. t = w @ rest \<and> map upper_char w = map upper_char l
           \<and> matchFrom ps (before prev w) rest = Some (n', caps) \<and> n = length w + n'"
  using assms
proof (induction l arbitrary: prev t n)
  case Nil
  then show ?case
    by (intro exI [of _ "[]"] exI [of _ t] exI [of _ n]) (simp add: lit_def before_def)
next
  case (Cons x l)
  from Cons.prems have "matchFrom (Match One (Chr x) # (lit l @ ps)) prev t = Some (n, caps)"
    by (simp add: lit_def)
  from matchFrom_One_SomeD [OF this] obtain c rest n1 where t: "t = c # rest"
    and c: "atom_matches (Chr x) c" and m: "matchFrom (lit l @ ps) (Some c) rest = Some (n1, caps)"
    and n: "n = Suc n1"
    by blast
  from Cons.IH [OF m] obtain w rest' n' where r: "rest = w @ rest'"
    and w: "map upper_char w = map upper_char l"
    and m': "matchFrom ps (before (Some c) w) rest' = Some (n', caps)" and n1: "n1 = length w + n'"
    by blast
  have "before (Some c) w = before prev (c # w)"
    by (rule before_Cons)
  with t c r w m' n n1 show ?case
    by (intro exI [of _ "c # w"] exI [of _ rest'] exI [of _ n']) simp
qed

lemma matchFrom_boundary_SomeD:
  "matchFrom [WordBoundary] prev t = Some (n, caps) \<Longrightarrow> atBoundary prev t \<and> n = 0 \<and> caps = []"
  by (simp split: if_splits)

lemma upper_char_equals: "upper_char e = CHR ''='' \<Longrightarrow> e = CHR ''=''"
proof (cases "(97 \<le> code e \<and> code e \<le> 122) \<or> (224 \<le> code e \<and> code e \<le> 254 \<and> code e \<noteq> 247)")
  case True
  assume "upper_char e = CHR ''=''"
  then have "code (upper_char e) = 61" by (simp add: code_def)
  moreover from True have "code (upper_char e) = (code e - 32) mod 256"
    by (simp add: upper_char_def code_char_of)
  moreover from True have "(code e - 32) mod 256 = code e - 32"
    by (intro mod_less) arith
  ultimately have False using True by arith
  then show ?thesis ..
next
  case False
  then have "upper_char e = e" unfolding upper_char_def by (simp only: if_False)
  moreover assume "upper_char e = CHR ''=''"
  ultimately show ?thesis by simp
qed

lemma upper_used: "map upper_char ''used'' = ''USED''"
  by (simp add: upper_char_def char_eval)

lemma swap_re_match_token:
  assumes "matchFrom swap_re prev t = Some (n, caps)"
  shows "\<exists>tok v c. swap_token_here t = Some (tok, v, c) \<and> n = length tok \<and> caps = [v, [c]]"
proof -
  from matchFrom_lit_SomeD [OF assms [unfolded swap_re_unfold(1)]] obtain u r0 n0 where
    t0: "t = u @ r0" and u: "map upper_char u = map upper_char ''used''"
    and m0: "matchFrom [Match Star (Cls Space), Match One (Chr (CHR ''='')), Match Star (Cls Space),
      Capture Plus (Cls DigitDot), Capture One (Cls MG), WordBoundary] (before prev u) r0 = Some (n0, caps)"
    and n0: "n = length u + n0"
    by (elim exE conjE) (rule that; assumption)
  from matchFrom_Star_SomeD [OF m0] obtain ws1 r1 n1 where
    t1: "r0 = ws1 @ r1" and ws1: "list_all (atom_matches (Cls Space)) ws1"
    and m1: "matchFrom [Match One (Chr (CHR ''='')), Match Star (Cls Space),
      Capture Plus (Cls DigitDot), Capture One (Cls MG), WordBoundary] (before (before prev u) ws1) r1 = Some (n1, caps)"
    and n1: "n0 = length ws1 + n1"
    by (elim exE conjE) (rule that; assumption)
  from matchFrom_One_SomeD [OF m1] obtain e r2 n2 where
    t2: "r1 = e # r2" and e: "atom_matches (Chr (CHR ''='')) e"
    and m2: "matchFrom [Match Star (Cls Space),
      Capture Plus (Cls DigitDot), Capture One (Cls MG), WordBoundary] (Some e) r2 = Some (n2, caps)"
    and n2: "n1 = Suc n2"
    by (elim exE conjE) (rule that; assumption)
  from matchFrom_Star_SomeD [OF m2] obtain ws2 r3 n3 where
    t3: "r2 = ws2 @ r3" and ws2: "list_all (atom_matches (Cls Space)) ws2"
    and m3: "matchFrom [Capture Plus (Cls DigitDot), Capture One (Cls MG), WordBoundary]
       (before (Some e) ws2) r3 = Some (n3, caps)"
    and n3: "n2 = length ws2 + n3"
    by (elim exE conjE) (rule that; assumption)
  from matchFrom_Plus_SomeD [OF m3] obtain v r4 n4 caps4 where
    t4: "r3 = v @ r4" and v: "v \<noteq> []" "list_all (atom_matches (Cls DigitDot)) v"
    and m4: "matchFrom [Capture One (Cls MG), WordBoundary] (before (before (Some e) ws2) v) r4 = Some (n4, caps4)"
    and n4: "n3 = length v + n4" and c4: "caps = v # caps4"
    by (elim exE conjE) (rule that; assumption)
  from matchFrom_CaptureOne_SomeD [OF m4] obtain c post n5 caps5 where
    t5: "r4 = c # post" and c: "atom_matches (Cls MG) c"
    and m5: "matchFrom [WordBoundary] (Some c) post = Some (n5, caps5)"
    and n5: "n4 = Suc n5" and c5: "caps4 = [c] # caps5"
    by (elim exE conjE) (rule that; assumption)
  from matchFrom_boundary_SomeD [OF m5] have b: "atBoundary (Some c) post" and n6: "n5 = 0"
    and c6: "caps5 = []"
    by simp_all
  have mg: "upper_char c = CHR ''M'' \<or> upper_char c = CHR ''G''"
    using c by simp
  have "isWord c"
    by (intro letter_word unit_letter) (rule mg)
  with b have post: "post = [] \<or> \<not> isWord (hd post)"
    by (cases post) (simp_all add: atBoundary_def)
  have eq: "e = CHR ''=''"
    using e upper_char_equals [of e] by (simp add: upper_char_def code_def)
  let ?tok = "u @ ws1 @ ''='' @ ws2 @ v @ [c]"
  have f1: "t = ?tok @ post"
    unfolding t0 t1 t2 t3 t4 t5 eq by simp
  have f2: "?tok = u @ ws1 @ ''='' @ ws2 @ v @ [c]" ..
  have f3: "map upper_char u = ''USED''"
    unfolding u by (rule upper_used)
  have f4: "list_all isSpace ws1" using ws1 by (simp add: atom_matches_cls)
  have f5: "list_all isSpace ws2" using ws2 by (simp add: atom_matches_cls)
  have f6: "list_all isDigitDot v" using v(2) by (simp add: atom_matches_cls)
  have "\<exists>u' ws1' ws2' post'. t = ?tok @ post' \<and> ?tok = u' @ ws1' @ ''='' @ ws2' @ v @ [c]
        \<and> map upper_char u' = ''USED'' \<and> list_all isSpace ws1' \<and> list_all isSpace ws2'
        \<and> v \<noteq> [] \<and> list_all isDigitDot v
        \<and> (upper_char c = CHR ''M'' \<or> upper_char c = CHR ''G'')
        \<and> (post' = [] \<or> \<not> isWord (hd post'))"
    by (intro exI [of _ u] exI [of _ ws1] exI [of _ ws2] exI [of _ post] conjI)
       (rule f1 f2 f3 f4 f5 v(1) f6 mg post)+
  then have "swap_token_here t = Some (?tok, v, c)"
    by (simp only: swap_token_here_iff)
  moreover have "n = length ?tok"
    unfolding n0 n1 n2 n3 n4 n5 n6 by simp
  moreover have "caps = [v, [c]]"
    unfolding c4 c5 c6 ..
  ultimately show ?thesis
    by (intro exI [of _ ?tok] exI [of _ v] exI [of _ c] conjI)
qed

lemma swap_token_re_match:
  assumes "swap_token_here t = Some (tok, v, c)"
  shows "matchFrom swap_re prev t = Some (length tok, [v, [c]])"
proof -
  from assms [unfolded swap_token_here_iff] obtain u ws1 ws2 post where
    t: "t = tok @ post" and tok: "tok = u @ ws1 @ ''='' @ ws2 @ v @ [c]"
    and h: "map upper_char u = ''USED''" "list_all isSpace ws1" "list_all isSpace ws2"
      "v \<noteq> []" "list_all isDigitDot v" "upper_char c = CHR ''M'' \<or> upper_char c = CHR ''G''"
      "post = [] \<or> \<not> isWord (hd post)"
    by (elim exE conjE) (rule that; assumption)
  have "t = u @ ws1 @ ''='' @ ws2 @ v @ [c] @ post"
    unfolding t tok by simp
  then show ?thesis
    unfolding tok using swap_token_match [OF h, of prev] by simp
qed

lemma matchFrom_swap_re:
  "matchFrom swap_re prev t =
     (case swap_token_here t of None \<Rightarrow> None | Some (tok, v, c) \<Rightarrow> Some (length tok, [v, [c]]))"
proof (cases "swap_token_here t")
  case None
  have "matchFrom swap_re prev t = None"
  proof (rule ccontr)
    assume "matchFrom swap_re prev t \<noteq> None"
    then obtain n caps where "matchFrom swap_re prev t = Some (n, caps)" by auto
    from swap_re_match_token [OF this] None show False by auto
  qed
  with None show ?thesis by simp
next
  case (Some r)
  obtain tok v c where r: "r = (tok, v, c)" by (cases r)
  from swap_token_re_match [OF Some [unfolded r], of prev] Some r show ?thesis by simp
qed

lemma searchFrom_swap_re:
  "searchFrom swap_re prev s =
     (case first_swap_token s of None \<Rightarrow> None | Some (tok, v, c) \<Rightarrow> Some [tok, v, [c]])"
proof (induction s arbitrary: prev)
  case Nil
  show ?case
    by (simp add: matchFrom_swap_re swap_token_here_Nil)
next
  case (Cons x xs)
  show ?case
  proof (cases "swap_token_here (x # xs)")
    case None
    then show ?thesis
      by (simp add: matchFrom_swap_re Cons.IH)
  next
    case (Some r)
    obtain tok v c where r: "r = (tok, v, c)" by (cases r)
    from swap_token_here_prefix [OF Some [unfolded r]] have "take (length tok) (x # xs) = tok" .
    with Some r show ?thesis
      by (simp add: matchFrom_swap_re)
  qed
qed

lemma first_swap_token_Some_iff:
  "first_swap_token s = Some r \<longleftrightarrow>
     (\<exists>i\<le>length s. swap_token_here (drop i s) = Some r
        \<and> (\<forall>j<i. swap_token_here (drop j s) = None))"
proof (induction s)
  case Nil
  show ?case by (simp add: swap_token_here_Nil)
next
  case (Cons x xs)
  show ?case
  proof (cases "swap_token_here (x # xs)")
    case (Some r0)
    have "(\<exists>i\<le>length (x # xs). swap_token_here (drop i (x # xs)) = Some r
        \<and> (\<forall>j<i. swap_token_here (drop j (x # xs)) = None)) \<longleftrightarrow> r = r0"
    proof
      assume "\<exists>i\<le>length (x # xs). swap_token_here (drop i (x # xs)) = Some r
        \<and> (\<forall>j<i. swap_token_here (drop j (x # xs)) = None)"
      then obtain i where i: "swap_token_here (drop i (x # xs)) = Some r"
        and j: "\<forall>j<i. swap_token_here (drop j (x # xs)) = None" by blast
      have "i = 0"
      proof (rule ccontr)
        assume "i \<noteq> 0"
        then have "0 < i" by simp
        with j have "swap_token_here (drop 0 (x # xs)) = None" by blast
        with Some show False by simp
      qed
      with i Some show "r = r0" by simp
    next
      assume "r = r0"
      with Some show "\<exists>i\<le>length (x # xs). swap_token_here (drop i (x # xs)) = Some r
        \<and> (\<forall>j<i. swap_token_here (drop j (x # xs)) = None)"
        by (intro exI [of _ 0]) simp
    qed
    with Some show ?thesis by auto
  next
    case None
    have "(\<exists>i\<le>length (x # xs). swap_token_here (drop i (x # xs)) = Some r
        \<and> (\<forall>j<i. swap_token_here (drop j (x # xs)) = None)) \<longleftrightarrow>
      (\<exists>i\<le>length xs. swap_token_here (drop i xs) = Some r
        \<and> (\<forall>j<i. swap_token_here (drop j xs) = None))"
    proof
      assume "\<exists>i\<le>length (x # xs). swap_token_here (drop i (x # xs)) = Some r
        \<and> (\<forall>j<i. swap_token_here (drop j (x # xs)) = None)"
      then obtain i where l: "i \<le> length (x # xs)" and i: "swap_token_here (drop i (x # xs)) = Some r"
        and j: "\<forall>j<i. swap_token_here (drop j (x # xs)) = None" by blast
      from i None obtain i' where s: "i = Suc i'"
        by (cases i) simp_all
      have "\<forall>j<i'. swap_token_here (drop j xs) = None"
      proof (intro allI impI)
        fix k assume "k < i'"
        then have "Suc k < i" using s by simp
        with j have "swap_token_here (drop (Suc k) (x # xs)) = None" by blast
        then show "swap_token_here (drop k xs) = None" by simp
      qed
      with l i s show "\<exists>i\<le>length xs. swap_token_here (drop i xs) = Some r
        \<and> (\<forall>j<i. swap_token_here (drop j xs) = None)"
        by (intro exI [of _ i']) simp
    next
      assume "\<exists>i\<le>length xs. swap_token_here (drop i xs) = Some r
        \<and> (\<forall>j<i. swap_token_here (drop j xs) = None)"
      then obtain i where l: "i \<le> length xs" and i: "swap_token_here (drop i xs) = Some r"
        and j: "\<forall>j<i. swap_token_here (drop j xs) = None" by blast
      have "\<forall>k<Suc i. swap_token_here (drop k (x # xs)) = None"
      proof (intro allI impI)
        fix k assume k: "k < Suc i"
        show "swap_token_here (drop k (x # xs)) = None"
        proof (cases k)
          case 0
          with None show ?thesis by simp
        next
          case (Suc k')
          with k have "k' < i" by simp
          with j have "swap_token_here (drop k' xs) = None" by blast
          with Suc show ?thesis by simp
        qed
      qed
      with l i show "\<exists>i\<le>length (x # xs). swap_token_here (drop i (x # xs)) = Some r
        \<and> (\<forall>j<i. swap_token_here (drop j (x # xs)) = None)"
        by (intro exI [of _ "Suc i"]) simp
    qed
    with None Cons.IH show ?thesis by simp
  qed
qed

lemma first_swap_token_None_iff:
  "first_swap_token s = None \<longleftrightarrow> (\<forall>i\<le>length s. swap_token_here (drop i s) = None)"
proof (induction s)
  case Nil
  show ?case by (simp add: swap_token_here_Nil)
next
  case (Cons x xs)
  have "(\<forall>i\<le>length (x # xs). swap_token_here (drop i (x # xs)) = None) \<longleftrightarrow>
     swap_token_here (x # xs) = None \<and> (\<forall>i\<le>length xs. swap_token_here (drop i xs) = None)"
  proof (intro iffI conjI allI impI)
    assume a: "\<forall>i\<le>length (x # xs). swap_token_here (drop i (x # xs)) = None"
    from a [rule_format, of 0] show "swap_token_here (x # xs) = None" by simp
    fix i assume "i \<le> length xs"
    with a [rule_format, of "Suc i"] show "swap_token_here (drop i xs) = None" by simp
  next
    fix i
    assume a: "swap_token_here (x # xs) = None \<and> (\<forall>i\<le>length xs. swap_token_here (drop i xs) = None)"
      and i: "i \<le> length (x # xs)"
    show "swap_token_here (drop i (x # xs)) = None"
    proof (cases i)
      case 0
      with a show ?thesis by simp
    next
      case (Suc k)
      with i a show ?thesis by simp
    qed
  qed
  with Cons.IH show ?case
    by (simp split: option.splits)
qed

text \<open>The equations by which the first token of a concrete text is found.\<close>

lemma first_swap_token_skip:
  "upper_char c \<noteq> CHR ''U'' \<Longrightarrow> first_swap_token (c # cs) = first_swap_token cs"
  by (simp add: swap_token_here_def Let_def)

lemma first_swap_token_try:
  "upper_char c = CHR ''U'' \<Longrightarrow>
     first_swap_token (c # cs) =
       (case swap_token_here (c # cs) of Some r \<Rightarrow> Some r | None \<Rightarrow> first_swap_token cs)"
  by simp

lemmas token_eval = first_swap_token_skip first_swap_token_try first_swap_token.simps(1)
  swap_token_here_def Let_def isSpace_def isDigitDot_def isDigit_def isWord_def isLetter_def
  upper_char_def

section \<open>The derived flag and the warnings (C1, C5)\<close>

text \<open>
  C1, as the handler computes it. The flag \<open>gpu_pinned\<close> of a snapshot is true iff
  \<open>active_pct\<close> and \<open>idle_pct\<close> are both non-null, \<open>active_pct >= 95\<close> and
  \<open>idle_pct <= 2\<close>, and it is false whenever either value is null. For the values the GPU
  parser yields, which are finite and never negative, this is: \<open>active_pct\<close> is at least
  95 and \<open>idle_pct\<close> lies in [0, 2]. No upper bound of 100 on \<open>active_pct\<close> is tested.
\<close>

theorem gpu_pinned_iff:
  "(gpu_pinned (derived (metrics_snapshot now g mem therm pf)) \<longleftrightarrow>
      (\<exists>a i. active_pct (stats g) = Some a \<and> idle_pct (stats g) = Some i
             \<and> js_ge a (Finite 95) \<and> js_le i (Finite 2)))
   \<and> (stats g = parsePowermetricsGPU out \<longrightarrow>
        (gpu_pinned (derived (metrics_snapshot now g mem therm pf)) \<longleftrightarrow>
           (\<exists>x y. active_pct (stats g) = Some (Finite x) \<and> idle_pct (stats g) = Some (Finite y)
                  \<and> 95 \<le> x \<and> 0 \<le> y \<and> y \<le> 2)))
   \<and> (active_pct (stats g) = None \<or> idle_pct (stats g) = None \<longrightarrow>
         \<not> gpu_pinned (derived (metrics_snapshot now g mem therm pf)))"
proof -
  have general: "gpu_pinned (derived (metrics_snapshot now g mem therm pf)) \<longleftrightarrow>
      (\<exists>a i. active_pct (stats g) = Some a \<and> idle_pct (stats g) = Some i
             \<and> js_ge a (Finite 95) \<and> js_le i (Finite 2))"
    by (auto simp: metrics_snapshot_def Let_def split: option.splits)
  have parsed: "stats g = parsePowermetricsGPU out \<longrightarrow>
        (gpu_pinned (derived (metrics_snapshot now g mem therm pf)) \<longleftrightarrow>
           (\<exists>x y. active_pct (stats g) = Some (Finite x) \<and> idle_pct (stats g) = Some (Finite y)
                  \<and> 95 \<le> x \<and> 0 \<le> y \<and> y \<le> 2))"
  proof
    assume p: "stats g = parsePowermetricsGPU out"
    show "gpu_pinned (derived (metrics_snapshot now g mem therm pf)) \<longleftrightarrow>
           (\<exists>x y. active_pct (stats g) = Some (Finite x) \<and> idle_pct (stats g) = Some (Finite y)
                  \<and> 95 \<le> x \<and> 0 \<le> y \<and> y \<le> 2)"
      unfolding general
    proof
      assume "\<exists>a i. active_pct (stats g) = Some a \<and> idle_pct (stats g) = Some i
             \<and> js_ge a (Finite 95) \<and> js_le i (Finite 2)"
      then obtain a i where a: "active_pct (stats g) = Some a" and i: "idle_pct (stats g) = Some i"
          and c: "js_ge a (Finite 95)" "js_le i (Finite 2)" by blast
      from a p obtain x where x: "a = Finite x"
        using parsePowermetricsGPU_nonneg(1) by metis
      from i p obtain y where y: "i = Finite y" "0 \<le> y"
        using parsePowermetricsGPU_nonneg(2) by metis
      from c x y have "95 \<le> x" "y \<le> 2"
        by (simp_all add: js_ge_def js_le_def)
      with a i x y show "\<exists>x y. active_pct (stats g) = Some (Finite x) \<and> idle_pct (stats g) = Some (Finite y)
                  \<and> 95 \<le> x \<and> 0 \<le> y \<and> y \<le> 2"
        by blast
    next
      assume "\<exists>x y. active_pct (stats g) = Some (Finite x) \<and> idle_pct (stats g) = Some (Finite y)
                  \<and> 95 \<le> x \<and> 0 \<le> y \<and> y \<le> 2"
      then show "\<exists>a i. active_pct (stats g) = Some a \<and> idle_pct (stats g) = Some i
             \<and> js_ge a (Finite 95) \<and> js_le i (Finite 2)"
        by (auto simp: js_ge_def js_le_def)
    qed
  qed
  have null: "active_pct (stats g) = None \<or> idle_pct (stats g) = None \<longrightarrow>
         \<not> gpu_pinned (derived (metrics_snapshot now g mem therm pf))"
    unfolding general by auto
  show ?thesis
    by (intro conjI) (rule general parsed null)+
qed

text \<open>
  The theorem at a GPU text with 97.5 % active and 1 % idle residency: the flag is set.
\<close>

theorem gpu_pinned_iff_witness:
  "active_pct (parsePowermetricsGPU ''GPU HW active residency: 97.50% GPU idle residency: 1.00%'')
     = Some (Finite (195 / 2))
   \<and> idle_pct (parsePowermetricsGPU ''GPU HW active residency: 97.50% GPU idle residency: 1.00%'')
     = Some (Finite 1)
   \<and> gpu_pinned (derived (metrics_snapshot ''t''
       \<lparr> stats = parsePowermetricsGPU ''GPU HW active residency: 97.50% GPU idle residency: 1.00%'',
         raw = [], probe_ok = True \<rparr>
       \<lparr> stats = \<lparr> pressure = Green, swap_gb = None \<rparr>, raw = [], probe_ok = True \<rparr>
       \<lparr> stats = \<lparr> cpu_speed_limit_pct = None, gpu_speed_limit_pct = Some (Finite 100),
                   thermal_pressure = Nominal, cpu_temp_c = None, gpu_temp_c = None,
                   soc_temp_c = None,
                   source = \<lparr> pmset_ok = True, powermetrics_smc_ok = True, m4_temp_ok = True \<rparr> \<rparr>,
         raw = [], probe_ok = True \<rparr>
       getPerf))"
proof -
  let ?T = "''GPU HW active residency: 97.50% GPU idle residency: 1.00%''"
  have a: "active_pct (parsePowermetricsGPU ?T) = Some (Finite (195 / 2))"
    by (simp add: parsePowermetricsGPU_def matchNumber_def gpu_active_re_def re_eval num_eval
        char_eval del: matchFrom.simps(3,4))
  have i: "idle_pct (parsePowermetricsGPU ?T) = Some (Finite 1)"
    by (simp add: parsePowermetricsGPU_def matchNumber_def gpu_idle_re_def re_eval num_eval
        char_eval del: matchFrom.simps(3,4))
  let ?g = "\<lparr> stats = parsePowermetricsGPU ?T, raw = [], probe_ok = True \<rparr>"
  let ?m = "\<lparr> stats = \<lparr> pressure = Green, swap_gb = None \<rparr>, raw = [], probe_ok = True \<rparr>"
  let ?th = "\<lparr> stats = \<lparr> cpu_speed_limit_pct = None, gpu_speed_limit_pct = Some (Finite 100),
                   thermal_pressure = Nominal, cpu_temp_c = None, gpu_temp_c = None,
                   soc_temp_c = None,
                   source = \<lparr> pmset_ok = True, powermetrics_smc_ok = True, m4_temp_ok = True \<rparr> \<rparr>,
         raw = [], probe_ok = True \<rparr>"
  have iff: "gpu_pinned (derived (metrics_snapshot ''t'' ?g ?m ?th getPerf)) \<longleftrightarrow>
      (\<exists>x y. active_pct (stats ?g) = Some (Finite x) \<and> idle_pct (stats ?g) = Some (Finite y)
             \<and> 95 \<le> x \<and> 0 \<le> y \<and> y \<le> 2)"
    using gpu_pinned_iff [of "''t''" ?g ?m ?th getPerf ?T, THEN conjunct2, THEN conjunct1]
    by simp
  have "\<exists>x y. active_pct (stats ?g) = Some (Finite x) \<and> idle_pct (stats ?g) = Some (Finite y)
             \<and> 95 \<le> x \<and> 0 \<le> y \<and> y \<le> 2"
    by (rule exI [of _ "195 / 2"], rule exI [of _ 1]) (simp add: a i)
  with iff have "gpu_pinned (derived (metrics_snapshot ''t'' ?g ?m ?th getPerf))"
    by (rule iffD2)
  with a i show ?thesis by simp
qed

text \<open>
  C1 as stated fails: the text \<open>GPU HW active residency: 150%\<close> with an idle residency of
  0 % parses to \<open>active_pct = 150\<close>, which lies outside [95, 100], and the flag is set.
\<close>

theorem gpu_pinned_counterexample:
  "active_pct (parsePowermetricsGPU ''GPU HW active residency: 150% GPU idle residency: 0%'')
     = Some (Finite 150)
   \<and> idle_pct (parsePowermetricsGPU ''GPU HW active residency: 150% GPU idle residency: 0%'')
     = Some (Finite 0)
   \<and> \<not> (150 \<le> (100 :: real))
   \<and> gpu_pinned (derived (metrics_snapshot ''t''
       \<lparr> stats = parsePowermetricsGPU ''GPU HW active residency: 150% GPU idle residency: 0%'',
         raw = [], probe_ok = True \<rparr>
       \<lparr> stats = \<lparr> pressure = Green, swap_gb = None \<rparr>, raw = [], probe_ok = True \<rparr>
       \<lparr> stats = \<lparr> cpu_speed_limit_pct = None, gpu_speed_limit_pct = Some (Finite 100),
                   thermal_pressure = Nominal, cpu_temp_c = None, gpu_temp_c = None,
                   soc_temp_c = None,
                   source = \<lparr> pmset_ok = True, powermetrics_smc_ok = True, m4_temp_ok = True \<rparr> \<rparr>,
         raw = [], probe_ok = True \<rparr>
       getPerf))"
proof -
  have a: "active_pct (parsePowermetricsGPU ''GPU HW active residency: 150% GPU idle residency: 0%'')
     = Some (Finite 150)"
    by (simp add: parsePowermetricsGPU_def matchNumber_def gpu_active_re_def re_eval num_eval
        char_eval del: matchFrom.simps(3,4))
  have i: "idle_pct (parsePowermetricsGPU ''GPU HW active residency: 150% GPU idle residency: 0%'')
     = Some (Finite 0)"
    by (simp add: parsePowermetricsGPU_def matchNumber_def gpu_idle_re_def re_eval num_eval
        char_eval del: matchFrom.simps(3,4))
  show ?thesis
    unfolding metrics_snapshot_def Let_def
    by (simp add: a i js_ge_def js_le_def)
qed

text \<open>
  C5. The warnings of a snapshot are taken, in this order, from the GPU advisory, the
  power-state advisory and the temperature advisory; no warning occurs twice; each is
  present exactly under its own condition; and the list is empty iff GPU frequency or
  GPU power is non-null, the power-state command succeeded, and SMC sampling or the
  sensor helper succeeded.
\<close>

theorem warnings_list:
  "subseq (warnings (metrics_snapshot now g mem therm pf)) [warn_gpu, warn_pmset, warn_temps]
   \<and> distinct (warnings (metrics_snapshot now g mem therm pf))
   \<and> (warnings (metrics_snapshot now g mem therm pf) = [] \<longleftrightarrow>
        (freq_mhz (stats g) \<noteq> None \<or> power_mw (stats g) \<noteq> None)
        \<and> pmset_ok (source (stats therm))
        \<and> (powermetrics_smc_ok (source (stats therm)) \<or> m4_temp_ok (source (stats therm))))
   \<and> (warn_gpu \<in> set (warnings (metrics_snapshot now g mem therm pf)) \<longleftrightarrow>
        freq_mhz (stats g) = None \<and> power_mw (stats g) = None)
   \<and> (warn_pmset \<in> set (warnings (metrics_snapshot now g mem therm pf)) \<longleftrightarrow>
        \<not> pmset_ok (source (stats therm)))
   \<and> (warn_temps \<in> set (warnings (metrics_snapshot now g mem therm pf)) \<longleftrightarrow>
        \<not> powermetrics_smc_ok (source (stats therm)) \<and> \<not> m4_temp_ok (source (stats therm)))"
  by (simp add: metrics_snapshot_def Let_def warn_gpu_def warn_pmset_def warn_temps_def)

text \<open>
  The theorem at a fully degraded sample (no GPU value, every thermal source failed):
  the three warnings, in order.
\<close>

theorem warnings_list_witness:
  "warnings (metrics_snapshot ''t''
     \<lparr> stats = \<lparr> freq_mhz = None, active_pct = None, idle_pct = None, power_mw = None \<rparr>,
       raw = [], probe_ok = False \<rparr>
     \<lparr> stats = \<lparr> pressure = Unknown, swap_gb = None \<rparr>, raw = [], probe_ok = False \<rparr>
     \<lparr> stats = \<lparr> cpu_speed_limit_pct = None, gpu_speed_limit_pct = Some (Finite 100),
                 thermal_pressure = UnknownLevel, cpu_temp_c = None, gpu_temp_c = None,
                 soc_temp_c = None,
                 source = \<lparr> pmset_ok = False, powermetrics_smc_ok = False, m4_temp_ok = False \<rparr> \<rparr>,
       raw = [], probe_ok = False \<rparr>
     getPerf) = [warn_gpu, warn_pmset, warn_temps]"
proof -
  let ?w = "warnings (metrics_snapshot ''t''
     \<lparr> stats = \<lparr> freq_mhz = None, active_pct = None, idle_pct = None, power_mw = None \<rparr>,
       raw = [], probe_ok = False \<rparr>
     \<lparr> stats = \<lparr> pressure = Unknown, swap_gb = None \<rparr>, raw = [], probe_ok = False \<rparr>
     \<lparr> stats = \<lparr> cpu_speed_limit_pct = None, gpu_speed_limit_pct = Some (Finite 100),
                 thermal_pressure = UnknownLevel, cpu_temp_c = None, gpu_temp_c = None,
                 soc_temp_c = None,
                 source = \<lparr> pmset_ok = False, powermetrics_smc_ok = False, m4_temp_ok = False \<rparr> \<rparr>,
       raw = [], probe_ok = False \<rparr>
     getPerf)"
  have sub: "subseq ?w [warn_gpu, warn_pmset, warn_temps]"
    and g: "warn_gpu \<in> set ?w" and p: "warn_pmset \<in> set ?w" and t: "warn_temps \<in> set ?w"
    using warnings_list [of "''t''"
     "\<lparr> stats = \<lparr> freq_mhz = None, active_pct = None, idle_pct = None, power_mw = None \<rparr>,
       raw = [], probe_ok = False \<rparr>"
     "\<lparr> stats = \<lparr> pressure = Unknown, swap_gb = None \<rparr>, raw = [], probe_ok = False \<rparr>"
     "\<lparr> stats = \<lparr> cpu_speed_limit_pct = None, gpu_speed_limit_pct = Some (Finite 100),
                 thermal_pressure = UnknownLevel, cpu_temp_c = None, gpu_temp_c = None,
                 soc_temp_c = None,
                 source = \<lparr> pmset_ok = False, powermetrics_smc_ok = False, m4_temp_ok = False \<rparr> \<rparr>,
       raw = [], probe_ok = False \<rparr>" getPerf]
    by simp_all
  have "length ?w = 3"
    by (simp add: metrics_snapshot_def)
  with sub show ?thesis
    by (metis length_Cons list.size(3) numeral_3_eq_3 subseq_same_length)
qed

section \<open>The thermal limit and pressure parser (C6, C10)\<close>

text \<open>
  C6. The thermal parser never fails, and in its result: when the CPU speed-limit pattern
  does not match and the text holds \<open>No CPU power status has been recorded\<close>, the CPU limit
  is 100; when the GPU speed-limit pattern does not match, the GPU limit is 100; when none
  of the three pressure patterns matches and the text holds
  \<open>No thermal warning level has been recorded\<close>, the pressure is nominal.
\<close>

theorem pmset_defaults:
  "\<exists>r. parsePmsetTherm out = Inr r
     \<and> (String_match out cpu_limit_re = None
          \<and> String_includes out ''No CPU power status has been recorded''
          \<longrightarrow> cpuLim r = Some (Finite 100))
     \<and> (String_match out gpu_limit_re = None \<longrightarrow> gpuLim r = Some (Finite 100))
     \<and> (String_match out pressure_re1 = None \<and> String_match out pressure_re2 = None
          \<and> String_match out pressure_re3 = None
          \<and> String_includes out ''No thermal warning level has been recorded''
          \<longrightarrow> pmset_pressure r = Nominal)"
proof -
  obtain r where r: "parsePmsetTherm out = Inr r"
    using parsePmsetTherm_Inr by blast
  have f1: "String_match out cpu_limit_re = None
          \<and> String_includes out ''No CPU power status has been recorded''
          \<longrightarrow> cpuLim r = Some (Finite 100)"
    using parsePmsetTherm_fields(1) [OF r] by (simp add: matchNumber_None orElse_def)
  have f2: "String_match out gpu_limit_re = None \<longrightarrow> gpuLim r = Some (Finite 100)"
    using parsePmsetTherm_gpuLim [OF r] by (simp add: matchNumber_None)
  have f3: "String_match out pressure_re1 = None \<and> String_match out pressure_re2 = None
          \<and> String_match out pressure_re3 = None
          \<and> String_includes out ''No thermal warning level has been recorded''
          \<longrightarrow> pmset_pressure r = Nominal"
    using parsePmsetTherm_fields(2) [OF r] by (simp add: orElse_def)
  show ?thesis
    by (intro exI [of _ r] conjI) (rule r f1 f2 f3)+
qed

text \<open>The theorem at the output of \<open>pmset -g therm\<close> on a machine that recorded nothing.\<close>

theorem pmset_defaults_witness:
  "\<exists>r. parsePmsetTherm (''Note: No thermal warning level has been recorded'' @ nl
                          @ ''Note: No CPU power status has been recorded'') = Inr r
      \<and> cpuLim r = Some (Finite 100) \<and> gpuLim r = Some (Finite 100) \<and> pmset_pressure r = Nominal"
proof -
  let ?t = "''Note: No thermal warning level has been recorded'' @ nl
            @ ''Note: No CPU power status has been recorded''"
  have c: "String_match ?t cpu_limit_re = None"
    by (simp add: cpu_limit_re_def nl_def re_eval char_eval del: matchFrom.simps(3,4))
  have g: "String_match ?t gpu_limit_re = None"
    by (simp add: gpu_limit_re_def nl_def re_eval char_eval del: matchFrom.simps(3,4))
  have p1: "String_match ?t pressure_re1 = None"
    by (simp add: pressure_re1_def nl_def re_eval char_eval del: matchFrom.simps(3,4))
  have p2: "String_match ?t pressure_re2 = None"
    by (simp add: pressure_re2_def nl_def re_eval char_eval del: matchFrom.simps(3,4))
  have p3: "String_match ?t pressure_re3 = None"
    by (simp add: pressure_re3_def nl_def re_eval char_eval del: matchFrom.simps(3,4))
  have i1: "String_includes ?t ''No CPU power status has been recorded''"
    by (simp add: nl_def)
  have i2: "String_includes ?t ''No thermal warning level has been recorded''"
    by (simp add: nl_def)
  show ?thesis
    using pmset_defaults [of ?t] c g p1 p2 p3 i1 i2 by auto
qed

text \<open>
  C10. In every result of the thermal probe \<open>gpu_speed_limit_pct\<close> is a finite number,
  never null: the number matched by the GPU speed-limit pattern in the text of the
  power-state and SMC commands, and 100 when the pattern does not match (or matches a text
  that is no finite number).
\<close>

theorem gpu_speed_limit_never_null:
  assumes "getThermals Bun_spawn = Inr r"
  shows "gpu_speed_limit_pct (stats r) \<noteq> None
       \<and> (\<exists>x. gpu_speed_limit_pct (stats r) = Some (Finite x))
       \<and> (\<forall>a b. run Bun_spawn pmset_cmd 3000 = Inr a \<and> run Bun_spawn smc_cmd 8000 = Inr b \<longrightarrow>
             gpu_speed_limit_pct (stats r) =
               Some (case matchNumber (stdout a @ stderr a @ nl @ stdout b @ stderr b) gpu_limit_re of
                       None \<Rightarrow> Finite 100 | Some v \<Rightarrow> v)
             \<and> (String_match (stdout a @ stderr a @ nl @ stdout b @ stderr b) gpu_limit_re = None \<longrightarrow>
                   gpu_speed_limit_pct (stats r) = Some (Finite 100)))"
proof -
  from assms obtain a b c where runs: "run Bun_spawn pmset_cmd 3000 = Inr a"
      "run Bun_spawn smc_cmd 8000 = Inr b" "run Bun_spawn m4temp_cmd 4000 = Inr c"
    using getThermals_InrD by blast
  from getThermals_runs [OF runs] assms obtain p where
      p: "parsePmsetTherm (stdout a @ stderr a @ nl @ stdout b @ stderr b) = Inr p"
      and g: "gpu_speed_limit_pct (stats r) = gpuLim p"
    by auto
  let ?t = "stdout a @ stderr a @ nl @ stdout b @ stderr b"
  have v: "gpu_speed_limit_pct (stats r) =
      Some (case matchNumber ?t gpu_limit_re of None \<Rightarrow> Finite 100 | Some v \<Rightarrow> v)"
    using g parsePmsetTherm_gpuLim [OF p] by simp
  have fin: "\<exists>x. gpu_speed_limit_pct (stats r) = Some (Finite x)"
    using v matchNumber_Finite [of ?t gpu_limit_re] by (auto split: option.splits)
  have none: "String_match ?t gpu_limit_re = None \<Longrightarrow> gpu_speed_limit_pct (stats r) = Some (Finite 100)"
    using v by (simp add: matchNumber_None)
  show ?thesis
    using v fin none runs by auto
qed

text \<open>
  The theorem at a power-state output that reports a GPU speed limit of 87, and where
  every command fails with no output: the limit is 100.
\<close>

theorem gpu_speed_limit_never_null_witness:
  "(case getThermals (\<lambda>cmd. Inr \<lparr> exited = 0,
            stdout_text = Some (if cmd = pmset_cmd then ''GPU_Speed_Limit = 87'' else []),
            stderr_text = Some [] \<rparr>) of
      Inl e \<Rightarrow> False
    | Inr r \<Rightarrow> gpu_speed_limit_pct (stats r) = Some (Finite 87))
   \<and> (case getThermals (\<lambda>cmd. Inr \<lparr> exited = 1, stdout_text = Some [], stderr_text = Some [] \<rparr>) of
      Inl e \<Rightarrow> False
    | Inr r \<Rightarrow> gpu_speed_limit_pct (stats r) = Some (Finite 100))"
proof -
  let ?sp = "\<lambda>cmd. Inr \<lparr> exited = 0,
            stdout_text = Some (if cmd = pmset_cmd then ''GPU_Speed_Limit = 87'' else []),
            stderr_text = Some [] \<rparr>"
  have a: "run ?sp pmset_cmd 3000 = Inr \<lparr> ok = True, stdout = ''GPU_Speed_Limit = 87'', stderr = [] \<rparr>"
    by (simp add: run_def)
  have b: "run ?sp smc_cmd 8000 = Inr \<lparr> ok = True, stdout = [], stderr = [] \<rparr>"
    by (simp add: run_def cmd_defs)
  have c: "run ?sp m4temp_cmd 4000 = Inr \<lparr> ok = True, stdout = [], stderr = [] \<rparr>"
    by (simp add: run_def cmd_defs)
  obtain r where r: "getThermals ?sp = Inr r"
    using getThermals_runs [OF a b c] by blast
  have m: "matchNumber (''GPU_Speed_Limit = 87'' @ nl) gpu_limit_re = Some (Finite 87)"
    by (simp add: matchNumber_def gpu_limit_re_def nl_def re_eval num_eval char_eval
        del: matchFrom.simps(3,4))
  have first: "gpu_speed_limit_pct (stats r) = Some (Finite 87)"
    using gpu_speed_limit_never_null [OF r] a b m by simp
  let ?sq = "\<lambda>cmd. Inr \<lparr> exited = 1, stdout_text = Some [], stderr_text = Some [] \<rparr>"
  have a': "run ?sq pmset_cmd 3000 = Inr \<lparr> ok = False, stdout = [], stderr = [] \<rparr>"
    by (simp add: run_def)
  have b': "run ?sq smc_cmd 8000 = Inr \<lparr> ok = False, stdout = [], stderr = [] \<rparr>"
    by (simp add: run_def)
  have c': "run ?sq m4temp_cmd 4000 = Inr \<lparr> ok = False, stdout = [], stderr = [] \<rparr>"
    by (simp add: run_def)
  obtain q where q: "getThermals ?sq = Inr q"
    using getThermals_runs [OF a' b' c'] by blast
  have n: "String_match nl gpu_limit_re = None"
    by (simp add: gpu_limit_re_def nl_def re_eval char_eval del: matchFrom.simps(3,4))
  have second: "gpu_speed_limit_pct (stats q) = Some (Finite 100)"
    using gpu_speed_limit_never_null [OF q] a' b' n by (simp add: matchNumber_None)
  from r first q second show ?thesis by simp
qed

section \<open>The process runner and the probes (C7, C8)\<close>

text \<open>
  C7. Whenever the sub-commands are started, the memory probe returns and its \<open>ok\<close> is the
  conjunction of the two exit statuses being zero (pressure query, swap query); the thermal
  probe returns and its \<open>ok\<close> is the disjunction of the three (power-state query, SMC
  sampling, sensor helper).
\<close>

theorem probe_ok_flags:
  "(Bun_spawn memory_pressure_cmd = Inr p1 \<and> Bun_spawn swap_cmd = Inr p2 \<longrightarrow>
      (\<exists>r. getMemory Bun_spawn = Inr r \<and> probe_ok r = (exited p1 = 0 \<and> exited p2 = 0)))
   \<and> (Bun_spawn pmset_cmd = Inr q1 \<and> Bun_spawn smc_cmd = Inr q2 \<and> Bun_spawn m4temp_cmd = Inr q3 \<longrightarrow>
      (\<exists>r. getThermals Bun_spawn = Inr r
           \<and> probe_ok r = (exited q1 = 0 \<or> exited q2 = 0 \<or> exited q3 = 0)))"
proof (intro conjI impI)
  assume s: "Bun_spawn memory_pressure_cmd = Inr p1 \<and> Bun_spawn swap_cmd = Inr p2"
  obtain sw where "parseSwapUsage
      ((case stdout_text p2 of None \<Rightarrow> [] | Some t \<Rightarrow> t) @ (case stderr_text p2 of None \<Rightarrow> [] | Some t \<Rightarrow> t)) = Inr sw"
    using parseSwapUsage_Inr by blast
  with s show "\<exists>r. getMemory Bun_spawn = Inr r \<and> probe_ok r = (exited p1 = 0 \<and> exited p2 = 0)"
    by (simp add: getMemory_def run_def Let_def)
next
  assume s: "Bun_spawn pmset_cmd = Inr q1 \<and> Bun_spawn smc_cmd = Inr q2 \<and> Bun_spawn m4temp_cmd = Inr q3"
  obtain p where "parsePmsetTherm
      (((case stdout_text q1 of None \<Rightarrow> [] | Some t \<Rightarrow> t) @ (case stderr_text q1 of None \<Rightarrow> [] | Some t \<Rightarrow> t))
        @ nl @ ((case stdout_text q2 of None \<Rightarrow> [] | Some t \<Rightarrow> t) @ (case stderr_text q2 of None \<Rightarrow> [] | Some t \<Rightarrow> t))) = Inr p"
    using parsePmsetTherm_Inr by blast
  with s show "\<exists>r. getThermals Bun_spawn = Inr r
              \<and> probe_ok r = (exited q1 = 0 \<or> exited q2 = 0 \<or> exited q3 = 0)"
    by (simp add: getThermals_def run_def Let_def)
qed

text \<open>The theorem where only the swap query fails: the memory probe is not ok, the thermal probe is.\<close>

theorem probe_ok_flags_witness:
  "(\<exists>r. getMemory (\<lambda>cmd. Inr \<lparr> exited = (if cmd = swap_cmd then 1 else 0),
                                 stdout_text = Some [], stderr_text = None \<rparr>) = Inr r
        \<and> probe_ok r = False)
   \<and> (\<exists>r. getThermals (\<lambda>cmd. Inr \<lparr> exited = (if cmd = swap_cmd then 1 else 0),
                                 stdout_text = Some [], stderr_text = None \<rparr>) = Inr r
        \<and> probe_ok r = True)"
  using probe_ok_flags [of
      "\<lambda>cmd. Inr \<lparr> exited = (if cmd = swap_cmd then 1 else 0),
                   stdout_text = Some [], stderr_text = None \<rparr>"
      "\<lparr> exited = 0, stdout_text = Some [], stderr_text = None \<rparr>"
      "\<lparr> exited = 1, stdout_text = Some [], stderr_text = None \<rparr>"
      "\<lparr> exited = 0, stdout_text = Some [], stderr_text = None \<rparr>"
      "\<lparr> exited = 0, stdout_text = Some [], stderr_text = None \<rparr>"
      "\<lparr> exited = 0, stdout_text = Some [], stderr_text = None \<rparr>"]
  by (simp add: cmd_defs)

text \<open>
  C8 at a missing executable. For a process that was started \<open>run\<close> returns, with
  \<open>ok\<close> true iff the exit value is zero and the empty string for a stream that could not
  be read (so also after the kill at the timeout, whose exit value is not zero). But
  \<open>Bun.spawn\<close> throws when the executable cannot be started, and \<open>run\<close> has no handler
  around the call: the error leaves \<open>run\<close>, the thermal probe and the whole /metrics
  request, instead of a result with \<open>ok = false\<close>.
\<close>

theorem run_missing_binary:
  "run (\<lambda>cmd. Inr \<lparr> exited = 0, stdout_text = Some ''out'', stderr_text = None \<rparr>) m4temp_cmd 4000
     = Inr \<lparr> ok = True, stdout = ''out'', stderr = [] \<rparr>
   \<and> run (\<lambda>cmd. Inr \<lparr> exited = 137, stdout_text = None, stderr_text = None \<rparr>) m4temp_cmd 4000
     = Inr \<lparr> ok = False, stdout = [], stderr = [] \<rparr>
   \<and> run (\<lambda>cmd. if cmd = m4temp_cmd then Inl SpawnError
               else Inr \<lparr> exited = 0, stdout_text = Some [], stderr_text = Some [] \<rparr>)
     m4temp_cmd 4000 = Inl SpawnError
   \<and> getThermals (\<lambda>cmd. if cmd = m4temp_cmd then Inl SpawnError
               else Inr \<lparr> exited = 0, stdout_text = Some [], stderr_text = Some [] \<rparr>) = Inl SpawnError
   \<and> fetch_metrics (\<lambda>cmd. if cmd = m4temp_cmd then Inl SpawnError
               else Inr \<lparr> exited = 0, stdout_text = Some [], stderr_text = Some [] \<rparr>) ''t'' = Inl SpawnError"
proof -
  let ?sp = "\<lambda>cmd. if cmd = m4temp_cmd then Inl SpawnError
               else Inr \<lparr> exited = 0, stdout_text = Some [], stderr_text = Some [] \<rparr>"
  have started: "run (\<lambda>cmd. Inr \<lparr> exited = 0, stdout_text = Some ''out'', stderr_text = None \<rparr>) m4temp_cmd 4000
     = Inr \<lparr> ok = True, stdout = ''out'', stderr = [] \<rparr>"
    by (simp add: run_def)
  have killed: "run (\<lambda>cmd. Inr \<lparr> exited = 137, stdout_text = None, stderr_text = None \<rparr>) m4temp_cmd 4000
     = Inr \<lparr> ok = False, stdout = [], stderr = [] \<rparr>"
    by (simp add: run_def)
  have r: "run ?sp m4temp_cmd 4000 = Inl SpawnError"
    by (simp add: run_def)
  have t: "getThermals ?sp = Inl SpawnError"
    by (simp add: getThermals_def run_def cmd_defs)
  obtain sw where sw: "parseSwapUsage [] = Inr sw"
    using parseSwapUsage_Inr by blast
  have g: "\<exists>x. getGPU ?sp = Inr x"
    by (simp add: getGPU_def run_def cmd_defs)
  have m: "\<exists>x. getMemory ?sp = Inr x"
    by (simp add: getMemory_def run_def cmd_defs sw)
  from g m t have f: "fetch_metrics ?sp ''t'' = Inl SpawnError"
    by (auto simp: fetch_metrics_def)
  show ?thesis
    by (intro conjI) (rule started killed r t f)+
qed

section \<open>The memory parsers (C2, C4)\<close>

text \<open>
  C2. For every text the memory-pressure classifier lower-cases the text and returns the
  first class of the fixed order: red when the lower-cased text contains \<open>critical\<close> or
  \<open>red\<close>; else yellow when it contains \<open>warn\<close>, \<open>warning\<close> or \<open>yellow\<close>; else green when it
  contains \<open>normal\<close>, \<open>green\<close> or \<open>77%\<close>; else green when it contains
  \<open>memory free percentage\<close>; else unknown. In particular a text that contains the word
  CRITICAL in any mix of cases is red, whatever else it contains.
\<close>

theorem memory_pressure_priority:
  "parseMemoryPressure out =
     (if sublist ''critical'' (toLowerCase out) \<or> sublist ''red'' (toLowerCase out) then Red
      else if sublist ''warn'' (toLowerCase out) \<or> sublist ''warning'' (toLowerCase out)
              \<or> sublist ''yellow'' (toLowerCase out) then Yellow
      else if sublist ''normal'' (toLowerCase out) \<or> sublist ''green'' (toLowerCase out)
              \<or> sublist ''77%'' (toLowerCase out) then Green
      else if sublist ''memory free percentage'' (toLowerCase out) then Green
      else Unknown)
   \<and> (\<forall>w. sublist w out \<and> toLowerCase w = ''critical'' \<longrightarrow> parseMemoryPressure out = Red)"
proof
  show "parseMemoryPressure out =
     (if sublist ''critical'' (toLowerCase out) \<or> sublist ''red'' (toLowerCase out) then Red
      else if sublist ''warn'' (toLowerCase out) \<or> sublist ''warning'' (toLowerCase out)
              \<or> sublist ''yellow'' (toLowerCase out) then Yellow
      else if sublist ''normal'' (toLowerCase out) \<or> sublist ''green'' (toLowerCase out)
              \<or> sublist ''77%'' (toLowerCase out) then Green
      else if sublist ''memory free percentage'' (toLowerCase out) then Green
      else Unknown)"
    unfolding parseMemoryPressure_def Let_def String_includes_sublist ..
next
  show "\<forall>w. sublist w out \<and> toLowerCase w = ''critical'' \<longrightarrow> parseMemoryPressure out = Red"
  proof (intro allI impI)
    fix w
    assume w: "sublist w out \<and> toLowerCase w = ''critical''"
    then have "sublist (toLowerCase w) (toLowerCase out)"
      unfolding toLowerCase_def by (intro sublist_map) simp
    with w have "String_includes (toLowerCase out) ''critical''"
      by (simp add: String_includes_sublist)
    then show "parseMemoryPressure out = Red"
      by (simp add: parseMemoryPressure_def)
  qed
qed

text \<open>
  The theorem at a text that holds the free-percentage header, \<open>77%\<close>, \<open>normal\<close> and
  \<open>CRITICAL\<close> (red), and at the usual output of the command (green).
\<close>

theorem memory_pressure_priority_witness:
  "parseMemoryPressure ''System-wide memory free percentage: 77% (normal), last level: CRITICAL'' = Red
   \<and> parseMemoryPressure ''The system has 17179869184 bytes. System-wide memory free percentage: 81%'' = Green"
proof -
  let ?t = "''System-wide memory free percentage: 77% (normal), last level: CRITICAL''"
  have s: "sublist ''CRITICAL'' ?t"
    unfolding String_includes_sublist [symmetric] by simp
  have l: "toLowerCase ''CRITICAL'' = ''critical''"
    by (simp add: toLowerCase_def lower_char_def char_eval)
  have r: "parseMemoryPressure ?t = Red"
    using memory_pressure_priority [of ?t] s l by blast
  let ?u = "''The system has 17179869184 bytes. System-wide memory free percentage: 81%''"
  have lu: "toLowerCase ?u = ''the system has 17179869184 bytes. system-wide memory free percentage: 81%''"
    by (simp add: toLowerCase_def lower_char_def char_eval)
  have g: "parseMemoryPressure ?u = Green"
    using memory_pressure_priority [of ?u]
    unfolding lu String_includes_sublist [symmetric] by simp
  from r g show ?thesis by simp
qed

text \<open>
  C4, as the parser computes it. A token is the word \<open>used\<close> in any case, optional white
  space, \<open>=\<close>, optional white space, a value that is a non-empty run of digits and
  points, and a unit M or G in any case that no word character follows. The swap parser
  never fails. It takes the token that starts leftmost in the text: when the value text
  of that token is a finite number the result is that number for the unit G and the
  number divided by 1024 for the unit M, and when it is not the result is null; no later
  token is tried. When no token starts anywhere in the text the result is null. The
  match of the pattern is that token with its value and unit as groups.
\<close>

theorem swap_usage:
  "parseSwapUsage sysctlOut =
     Inr (case first_swap_token sysctlOut of
            None \<Rightarrow> None
          | Some (tok, v, c) \<Rightarrow>
              (case Number v of
                 Finite x \<Rightarrow> Some (Finite (if upper_char c = CHR ''G'' then x else x / 1024))
               | _ \<Rightarrow> None))
   \<and> String_match sysctlOut swap_re =
       (case first_swap_token sysctlOut of None \<Rightarrow> None | Some (tok, v, c) \<Rightarrow> Some [tok, v, [c]])
   \<and> (\<forall>i tok v c. i \<le> length sysctlOut \<and> swap_token_here (drop i sysctlOut) = Some (tok, v, c)
           \<and> (\<forall>j<i. swap_token_here (drop j sysctlOut) = None) \<longrightarrow>
         first_swap_token sysctlOut = Some (tok, v, c)
         \<and> parseSwapUsage sysctlOut =
             Inr (case Number v of
                    Finite x \<Rightarrow> Some (Finite (if upper_char c = CHR ''G'' then x else x / 1024))
                  | _ \<Rightarrow> None))
   \<and> ((\<forall>i\<le>length sysctlOut. swap_token_here (drop i sysctlOut) = None) \<longrightarrow>
         first_swap_token sysctlOut = None \<and> parseSwapUsage sysctlOut = Inr None)
   \<and> (\<forall>t tok v c. swap_token_here t = Some (tok, v, c) \<longleftrightarrow>
         (\<exists>u ws1 ws2 post. t = tok @ post \<and> tok = u @ ws1 @ ''='' @ ws2 @ v @ [c]
            \<and> map upper_char u = ''USED'' \<and> list_all isSpace ws1 \<and> list_all isSpace ws2
            \<and> v \<noteq> [] \<and> list_all isDigitDot v
            \<and> (upper_char c = CHR ''M'' \<or> upper_char c = CHR ''G'')
            \<and> (post = [] \<or> \<not> isWord (hd post))))"
proof -
  have m: "String_match sysctlOut swap_re =
       (case first_swap_token sysctlOut of None \<Rightarrow> None | Some (tok, v, c) \<Rightarrow> Some [tok, v, [c]])"
    unfolding String_match_def by (rule searchFrom_swap_re)
  have p: "parseSwapUsage sysctlOut =
     Inr (case first_swap_token sysctlOut of
            None \<Rightarrow> None
          | Some (tok, v, c) \<Rightarrow>
              (case Number v of
                 Finite x \<Rightarrow> Some (Finite (if upper_char c = CHR ''G'' then x else x / 1024))
               | _ \<Rightarrow> None))"
  proof (cases "first_swap_token sysctlOut")
    case None
    with m show ?thesis by (simp add: parseSwapUsage_def)
  next
    case (Some r)
    obtain tok v c where r: "r = (tok, v, c)" by (cases r)
    from m Some r have "String_match sysctlOut swap_re = Some [tok, v, [c]]" by simp
    then have "parseSwapUsage sysctlOut =
       Inr (case Number v of
              Finite x \<Rightarrow> Some (Finite (if upper_char c = CHR ''G'' then x else x / 1024))
            | _ \<Rightarrow> None)"
      by (cases "Number v")
         (simp_all add: parseSwapUsage_def group_def Number_of_def Number_isFinite_def Let_def
            toUpperCase_def numeral_2_eq_2)
    with Some r show ?thesis by simp
  qed
  have f: "\<forall>i tok v c. i \<le> length sysctlOut \<and> swap_token_here (drop i sysctlOut) = Some (tok, v, c)
           \<and> (\<forall>j<i. swap_token_here (drop j sysctlOut) = None) \<longrightarrow>
         first_swap_token sysctlOut = Some (tok, v, c)
         \<and> parseSwapUsage sysctlOut =
             Inr (case Number v of
                    Finite x \<Rightarrow> Some (Finite (if upper_char c = CHR ''G'' then x else x / 1024))
                  | _ \<Rightarrow> None)"
  proof (intro allI impI)
    fix i tok v c
    assume h: "i \<le> length sysctlOut \<and> swap_token_here (drop i sysctlOut) = Some (tok, v, c)
           \<and> (\<forall>j<i. swap_token_here (drop j sysctlOut) = None)"
    then have "\<exists>i\<le>length sysctlOut. swap_token_here (drop i sysctlOut) = Some (tok, v, c)
            \<and> (\<forall>j<i. swap_token_here (drop j sysctlOut) = None)"
      by (intro exI [of _ i])
    then have t: "first_swap_token sysctlOut = Some (tok, v, c)"
      by (simp only: first_swap_token_Some_iff)
    with p show "first_swap_token sysctlOut = Some (tok, v, c)
         \<and> parseSwapUsage sysctlOut =
             Inr (case Number v of
                    Finite x \<Rightarrow> Some (Finite (if upper_char c = CHR ''G'' then x else x / 1024))
                  | _ \<Rightarrow> None)"
      by simp
  qed
  have n: "(\<forall>i\<le>length sysctlOut. swap_token_here (drop i sysctlOut) = None) \<longrightarrow>
         first_swap_token sysctlOut = None \<and> parseSwapUsage sysctlOut = Inr None"
  proof
    assume "\<forall>i\<le>length sysctlOut. swap_token_here (drop i sysctlOut) = None"
    then have t: "first_swap_token sysctlOut = None"
      by (simp only: first_swap_token_None_iff)
    with p show "first_swap_token sysctlOut = None \<and> parseSwapUsage sysctlOut = Inr None"
      by simp
  qed
  have d: "\<forall>t tok v c. swap_token_here t = Some (tok, v, c) \<longleftrightarrow>
         (\<exists>u ws1 ws2 post. t = tok @ post \<and> tok = u @ ws1 @ ''='' @ ws2 @ v @ [c]
            \<and> map upper_char u = ''USED'' \<and> list_all isSpace ws1 \<and> list_all isSpace ws2
            \<and> v \<noteq> [] \<and> list_all isDigitDot v
            \<and> (upper_char c = CHR ''M'' \<or> upper_char c = CHR ''G'')
            \<and> (post = [] \<or> \<not> isWord (hd post)))"
    by (intro allI) (rule swap_token_here_iff)
  show ?thesis
    by (intro conjI) (rule p m f n d)+
qed

text \<open>
  The theorem at the examples of the specification, at an output of \<open>sysctl vm.swapusage\<close>,
  and at a unit that a word character follows.
\<close>

theorem swap_usage_witness:
  "parseSwapUsage ''used = 2.50G'' = Inr (Some (Finite (5 / 2)))
   \<and> parseSwapUsage ''used = 512M'' = Inr (Some (Finite (1 / 2)))
   \<and> parseSwapUsage ''vm.swapusage: total = 2048.00M  used = 1024.00M  free = 1024.00M  (encrypted)''
       = Inr (Some (Finite 1))
   \<and> parseSwapUsage ''vm.swapusage: total = 0.00M'' = Inr None
   \<and> parseSwapUsage ''used = 5GB'' = Inr None"
proof -
  have g: "first_swap_token ''used = 2.50G'' = Some (''used = 2.50G'', ''2.50'', CHR ''G'')"
    by (simp add: token_eval char_eval del: first_swap_token.simps(2))
  have m: "first_swap_token ''used = 512M'' = Some (''used = 512M'', ''512'', CHR ''M'')"
    by (simp add: token_eval char_eval del: first_swap_token.simps(2))
  have s: "first_swap_token ''vm.swapusage: total = 2048.00M  used = 1024.00M  free = 1024.00M  (encrypted)''
      = Some (''used = 1024.00M'', ''1024.00'', CHR ''M'')"
    by (simp add: token_eval char_eval del: first_swap_token.simps(2))
  have n: "first_swap_token ''vm.swapusage: total = 0.00M'' = None"
    by (simp add: token_eval char_eval del: first_swap_token.simps(2))
  have b: "first_swap_token ''used = 5GB'' = None"
    by (simp add: token_eval char_eval del: first_swap_token.simps(2))
  have ng: "Number ''2.50'' = Finite (5 / 2)"
    by (simp add: num_eval char_eval)
  have nm: "Number ''512'' = Finite 512"
    by (simp add: num_eval char_eval)
  have ns: "Number ''1024.00'' = Finite 1024"
    by (simp add: num_eval char_eval)
  have "parseSwapUsage ''used = 2.50G'' = Inr (Some (Finite (5 / 2)))"
    using swap_usage [of "''used = 2.50G''", THEN conjunct1] by (simp add: g ng upper_char_def char_eval del: first_swap_token.simps)
  moreover have "parseSwapUsage ''used = 512M'' = Inr (Some (Finite (1 / 2)))"
    using swap_usage [of "''used = 512M''", THEN conjunct1] by (simp add: m nm upper_char_def char_eval del: first_swap_token.simps)
  moreover have "parseSwapUsage ''vm.swapusage: total = 2048.00M  used = 1024.00M  free = 1024.00M  (encrypted)''
       = Inr (Some (Finite 1))"
  proof -
    let ?out = "''vm.swapusage: total = 2048.00M  used = 1024.00M  free = 1024.00M  (encrypted)''"
    from s [unfolded first_swap_token_Some_iff] obtain i where
      i: "i \<le> length ?out \<and> swap_token_here (drop i ?out) = Some (''used = 1024.00M'', ''1024.00'', CHR ''M'')
           \<and> (\<forall>j<i. swap_token_here (drop j ?out) = None)"
      by (elim exE)
    from swap_usage [of ?out, THEN conjunct2, THEN conjunct2, THEN conjunct1, rule_format, OF i]
    have "parseSwapUsage ?out =
        Inr (case Number ''1024.00'' of
               Finite x \<Rightarrow> Some (Finite (if upper_char (CHR ''M'') = CHR ''G'' then x else x / 1024))
             | _ \<Rightarrow> None)"
      by (rule conjunct2)
    then show ?thesis
      unfolding ns by (simp add: upper_char_def char_eval)
  qed
  moreover have "parseSwapUsage ''vm.swapusage: total = 0.00M'' = Inr None"
    using swap_usage [of "''vm.swapusage: total = 0.00M''", THEN conjunct1] by (simp add: n del: first_swap_token.simps)
  moreover have "parseSwapUsage ''used = 5GB'' = Inr None"
  proof -
    from b [unfolded first_swap_token_None_iff]
    have "\<forall>i\<le>length ''used = 5GB''. swap_token_here (drop i ''used = 5GB'') = None" .
    from swap_usage [of "''used = 5GB''", THEN conjunct2, THEN conjunct2, THEN conjunct2,
        THEN conjunct1, THEN mp, OF this]
    show ?thesis by (rule conjunct2)
  qed
  ultimately show ?thesis by simp
qed

text \<open>
  C4 as stated fails: the leftmost token of \<open>used = 1.2.3G used = 4G\<close> is
  \<open>used = 1.2.3G\<close>, whose value is no number, and the parser returns null although a
  token with the value 4 follows.
\<close>

theorem swap_usage_counterexample:
  "String_match ''used = 1.2.3G used = 4G'' swap_re = Some [''used = 1.2.3G'', ''1.2.3'', ''G'']
   \<and> parseSwapUsage ''used = 1.2.3G used = 4G'' = Inr None
   \<and> parseSwapUsage ''used = 4G'' = Inr (Some (Finite 4))"
proof -
  have a: "String_match ''used = 1.2.3G used = 4G'' swap_re = Some [''used = 1.2.3G'', ''1.2.3'', ''G'']"
    by (simp add: swap_re_def re_eval isDigit_def isSpace_def char_eval del: matchFrom.simps(3,4))
  have b: "String_match ''used = 4G'' swap_re = Some [''used = 4G'', ''4'', ''G'']"
    by (simp add: swap_re_def re_eval isDigit_def isSpace_def char_eval del: matchFrom.simps(3,4))
  have na: "Number ''1.2.3'' = NaN"
    by (simp add: num_eval char_eval)
  have nb: "Number ''4'' = Finite 4"
    by (simp add: num_eval char_eval)
  have "parseSwapUsage ''used = 1.2.3G used = 4G'' = Inr None"
    by (simp add: parseSwapUsage_def a na group_def Number_of_def Number_isFinite_def)
  moreover have "parseSwapUsage ''used = 4G'' = Inr (Some (Finite 4))"
    by (simp add: parseSwapUsage_def b nb group_def Number_of_def Number_isFinite_def
        toUpperCase_def upper_char_def char_eval)
  ultimately show ?thesis using a by simp
qed

section \<open>Totality of the parsers (C9)\<close>

text \<open>
  C9, as the parsers compute it. Every parser returns for every text: the two group
  accesses that could throw never do, and every field of a result is present by its
  type. A field whose patterns do not match is null (unknown for the memory pressure),
  except in the thermal limit parser: there the GPU limit is always a finite number (100
  when unmatched), the CPU limit is 100 when unmatched under the note
  \<open>No CPU power status has been recorded\<close> and null otherwise, and the pressure is nominal
  when no phrase matched under the note \<open>No thermal warning level has been recorded\<close> or
  the word \<open>Nominal\<close>, and unknown otherwise.
\<close>

theorem parsers_total:
  "(\<exists>sw. parseSwapUsage out = Inr sw \<and> (String_match out swap_re = None \<longrightarrow> sw = None))
   \<and> (\<exists>p. parsePmsetTherm out = Inr p
          \<and> (\<exists>x. gpuLim p = Some (Finite x))
          \<and> (String_match out gpu_limit_re = None \<longrightarrow> gpuLim p = Some (Finite 100))
          \<and> (String_match out cpu_limit_re = None \<longrightarrow>
                cpuLim p = (if String_includes out ''No CPU power status has been recorded''
                            then Some (Finite 100) else None))
          \<and> (String_match out pressure_re1 = None \<and> String_match out pressure_re2 = None
                \<and> String_match out pressure_re3 = None \<longrightarrow>
                pmset_pressure p =
                  (if String_includes out ''No thermal warning level has been recorded''
                      \<or> String_includes out ''Nominal''
                   then Nominal else UnknownLevel)))
   \<and> (String_match out gpu_freq_re = None \<longrightarrow> freq_mhz (parsePowermetricsGPU out) = None)
   \<and> (String_match out gpu_active_re = None \<longrightarrow> active_pct (parsePowermetricsGPU out) = None)
   \<and> (String_match out gpu_idle_re = None \<longrightarrow> idle_pct (parsePowermetricsGPU out) = None)
   \<and> (String_match out gpu_power_re = None \<longrightarrow> power_mw (parsePowermetricsGPU out) = None)
   \<and> (String_match out (temp_re ''CPU die temperature:'') = None
        \<and> String_match out (temp_re ''CPU temperature:'') = None \<longrightarrow>
          cpu_die (parsePowermetricsSMCTemps out) = None)
   \<and> (String_match out (temp_re ''GPU die temperature:'') = None
        \<and> String_match out (temp_re ''GPU temperature:'') = None \<longrightarrow>
          gpu_die (parsePowermetricsSMCTemps out) = None)
   \<and> (String_match out (temp_re ''SoC die temperature:'') = None
        \<and> String_match out (temp_re ''SOC die temperature:'') = None
        \<and> String_match out (temp_re ''PMU die temperature:'') = None \<longrightarrow>
          soc_die (parsePowermetricsSMCTemps out) = None)
   \<and> (\<not> String_includes (toLowerCase out) ''critical'' \<and> \<not> String_includes (toLowerCase out) ''red''
        \<and> \<not> String_includes (toLowerCase out) ''warn'' \<and> \<not> String_includes (toLowerCase out) ''yellow''
        \<and> \<not> String_includes (toLowerCase out) ''normal'' \<and> \<not> String_includes (toLowerCase out) ''green''
        \<and> \<not> String_includes (toLowerCase out) ''77%''
        \<and> \<not> String_includes (toLowerCase out) ''memory free percentage'' \<longrightarrow>
          parseMemoryPressure out = Unknown)"
proof -
  obtain sw where sw: "parseSwapUsage out = Inr sw"
    using parseSwapUsage_Inr by blast
  have swn: "String_match out swap_re = None \<longrightarrow> sw = None"
    using sw by (auto simp: parseSwapUsage_def)
  obtain p where p: "parsePmsetTherm out = Inr p"
    using parsePmsetTherm_Inr by blast
  have g1: "\<exists>x. gpuLim p = Some (Finite x)"
    using p by (rule parsePmsetTherm_gpuLim_Finite)
  have g2: "String_match out gpu_limit_re = None \<longrightarrow> gpuLim p = Some (Finite 100)"
    using parsePmsetTherm_gpuLim [OF p] by (simp add: matchNumber_None)
  have c: "String_match out cpu_limit_re = None \<longrightarrow>
                cpuLim p = (if String_includes out ''No CPU power status has been recorded''
                            then Some (Finite 100) else None)"
    using parsePmsetTherm_fields(1) [OF p] by (simp add: matchNumber_None orElse_def)
  have pr: "String_match out pressure_re1 = None \<and> String_match out pressure_re2 = None
                \<and> String_match out pressure_re3 = None \<longrightarrow>
                pmset_pressure p =
                  (if String_includes out ''No thermal warning level has been recorded''
                      \<or> String_includes out ''Nominal''
                   then Nominal else UnknownLevel)"
    using parsePmsetTherm_fields(2) [OF p] by (simp add: orElse_def)
  have swap: "\<exists>sw. parseSwapUsage out = Inr sw \<and> (String_match out swap_re = None \<longrightarrow> sw = None)"
    by (intro exI [of _ sw] conjI) (rule sw swn)+
  have therm: "\<exists>p. parsePmsetTherm out = Inr p
          \<and> (\<exists>x. gpuLim p = Some (Finite x))
          \<and> (String_match out gpu_limit_re = None \<longrightarrow> gpuLim p = Some (Finite 100))
          \<and> (String_match out cpu_limit_re = None \<longrightarrow>
                cpuLim p = (if String_includes out ''No CPU power status has been recorded''
                            then Some (Finite 100) else None))
          \<and> (String_match out pressure_re1 = None \<and> String_match out pressure_re2 = None
                \<and> String_match out pressure_re3 = None \<longrightarrow>
                pmset_pressure p =
                  (if String_includes out ''No thermal warning level has been recorded''
                      \<or> String_includes out ''Nominal''
                   then Nominal else UnknownLevel))"
    by (intro exI [of _ p] conjI) (rule p g1 g2 c pr)+
  have gpu: "String_match out gpu_freq_re = None \<longrightarrow> freq_mhz (parsePowermetricsGPU out) = None"
      "String_match out gpu_active_re = None \<longrightarrow> active_pct (parsePowermetricsGPU out) = None"
      "String_match out gpu_idle_re = None \<longrightarrow> idle_pct (parsePowermetricsGPU out) = None"
      "String_match out gpu_power_re = None \<longrightarrow> power_mw (parsePowermetricsGPU out) = None"
    by (simp_all add: parsePowermetricsGPU_def matchNumber_None)
  have smc: "String_match out (temp_re ''CPU die temperature:'') = None
        \<and> String_match out (temp_re ''CPU temperature:'') = None \<longrightarrow>
          cpu_die (parsePowermetricsSMCTemps out) = None"
      "String_match out (temp_re ''GPU die temperature:'') = None
        \<and> String_match out (temp_re ''GPU temperature:'') = None \<longrightarrow>
          gpu_die (parsePowermetricsSMCTemps out) = None"
      "String_match out (temp_re ''SoC die temperature:'') = None
        \<and> String_match out (temp_re ''SOC die temperature:'') = None
        \<and> String_match out (temp_re ''PMU die temperature:'') = None \<longrightarrow>
          soc_die (parsePowermetricsSMCTemps out) = None"
    by (simp_all add: parsePowermetricsSMCTemps_def matchNumber_None orElse_def)
  have mem: "\<not> String_includes (toLowerCase out) ''critical'' \<and> \<not> String_includes (toLowerCase out) ''red''
        \<and> \<not> String_includes (toLowerCase out) ''warn'' \<and> \<not> String_includes (toLowerCase out) ''yellow''
        \<and> \<not> String_includes (toLowerCase out) ''normal'' \<and> \<not> String_includes (toLowerCase out) ''green''
        \<and> \<not> String_includes (toLowerCase out) ''77%''
        \<and> \<not> String_includes (toLowerCase out) ''memory free percentage'' \<longrightarrow>
          parseMemoryPressure out = Unknown"
  proof
    assume h: "\<not> String_includes (toLowerCase out) ''critical'' \<and> \<not> String_includes (toLowerCase out) ''red''
        \<and> \<not> String_includes (toLowerCase out) ''warn'' \<and> \<not> String_includes (toLowerCase out) ''yellow''
        \<and> \<not> String_includes (toLowerCase out) ''normal'' \<and> \<not> String_includes (toLowerCase out) ''green''
        \<and> \<not> String_includes (toLowerCase out) ''77%''
        \<and> \<not> String_includes (toLowerCase out) ''memory free percentage''"
    have "sublist ''warn'' ''warning''"
      by (simp add: sublist_def) (rule exI [of _ "[]"], simp)
    then have "String_includes (toLowerCase out) ''warning'' \<Longrightarrow> String_includes (toLowerCase out) ''warn''"
      unfolding String_includes_sublist by (rule sublist_order.order_trans)
    with h show "parseMemoryPressure out = Unknown"
      unfolding parseMemoryPressure_def Let_def by auto
  qed
  show ?thesis
    by (intro conjI) (rule swap therm gpu smc mem)+
qed

text \<open>The theorem at the empty text.\<close>

theorem parsers_total_witness:
  "parseSwapUsage [] = Inr None
   \<and> freq_mhz (parsePowermetricsGPU []) = None \<and> active_pct (parsePowermetricsGPU []) = None
   \<and> idle_pct (parsePowermetricsGPU []) = None \<and> power_mw (parsePowermetricsGPU []) = None
   \<and> cpu_die (parsePowermetricsSMCTemps []) = None \<and> gpu_die (parsePowermetricsSMCTemps []) = None
   \<and> soc_die (parsePowermetricsSMCTemps []) = None
   \<and> parseMemoryPressure [] = Unknown
   \<and> (\<exists>p. parsePmsetTherm [] = Inr p \<and> cpuLim p = None \<and> gpuLim p = Some (Finite 100)
          \<and> pmset_pressure p = UnknownLevel)"
  using parsers_total [of "[]"]
  by (auto simp: String_match_empty toLowerCase_def)

text \<open>
  C9 as stated fails: on the empty text the GPU speed-limit pattern does not match, and
  the field is 100, not null.
\<close>

theorem parsers_counterexample:
  "String_match [] gpu_limit_re = None
   \<and> parsePmsetTherm [] = Inr \<lparr> cpuLim = None, gpuLim = Some (Finite 100), pmset_pressure = UnknownLevel \<rparr>"
  by (simp add: parsePmsetTherm_def matchNumber_def orElse_def String_match_empty)

section \<open>The sensor-helper fallback (C3)\<close>

text \<open>
  C3, as the probe computes it. The thermal probe returns whenever its three commands are
  started. The fallback applies iff the die-temperature parse of the SMC text yields null
  for CPU, GPU and SoC and the helper exited with status zero; when it does not apply the
  three temperatures are those of the parse, and when it applies the three are equal. The
  text handed to \<open>JSON.parse\<close> is the helper's standard output followed by its standard
  error. When the fallback applies and that text does not parse, the three temperatures
  stay null; they also stay null when the parsed value is null, has no values, or has a
  value that \<open>Math.max\<close> cannot convert to a number. Otherwise the three temperatures
  are what \<open>Math.max\<close> returns for the values: for a non-empty object whose values are
  finite numbers, the maximum of the values.
\<close>

theorem sensor_fallback_rule:
  assumes "run Bun_spawn pmset_cmd 3000 = Inr a"
    and "run Bun_spawn smc_cmd 8000 = Inr b"
    and "run Bun_spawn m4temp_cmd 4000 = Inr c"
    and "primary = parsePowermetricsSMCTemps (stdout b @ stderr b)"
    and "applies = (cpu_die primary = None \<and> gpu_die primary = None \<and> soc_die primary = None \<and> ok c)"
  shows "\<exists>r. getThermals Bun_spawn = Inr r
     \<and> (\<not> applies \<longrightarrow>
          cpu_temp_c (stats r) = cpu_die primary \<and> gpu_temp_c (stats r) = gpu_die primary
          \<and> soc_temp_c (stats r) = soc_die primary)
     \<and> (applies \<longrightarrow>
          cpu_temp_c (stats r) = gpu_temp_c (stats r) \<and> gpu_temp_c (stats r) = soc_temp_c (stats r))
     \<and> (applies \<and> JSON_parse (stdout c @ stderr c) = None \<longrightarrow>
          cpu_temp_c (stats r) = None \<and> gpu_temp_c (stats r) = None \<and> soc_temp_c (stats r) = None)
     \<and> (\<forall>data temps e. applies \<and> JSON_parse (stdout c @ stderr c) = Some data
            \<and> (Object_values data = None \<or> Object_values data = Some []
                \<or> (Object_values data = Some temps \<and> Math_max_spread temps = Inl e)) \<longrightarrow>
          cpu_temp_c (stats r) = None \<and> gpu_temp_c (stats r) = None \<and> soc_temp_c (stats r) = None)
     \<and> (\<forall>data temps x. applies \<and> JSON_parse (stdout c @ stderr c) = Some data
            \<and> Object_values data = Some temps \<and> temps \<noteq> [] \<and> Math_max_spread temps = Inr x \<longrightarrow>
          cpu_temp_c (stats r) = Some x \<and> gpu_temp_c (stats r) = Some x \<and> soc_temp_c (stats r) = Some x)
     \<and> (\<forall>kvs xs. applies \<and> JSON_parse (stdout c @ stderr c) = Some (JObj kvs) \<and> kvs \<noteq> []
            \<and> map snd kvs = map (\<lambda>x. JNum (Finite x)) xs \<longrightarrow>
          cpu_temp_c (stats r) = Some (Finite (Max (set xs)))
          \<and> gpu_temp_c (stats r) = Some (Finite (Max (set xs)))
          \<and> soc_temp_c (stats r) = Some (Finite (Max (set xs))))"
proof -
  let ?raw = "stdout c @ stderr c"
  let ?t = "sensorFallback primary (ok c) ?raw"
  from getThermals_runs [OF assms(1,2,3)] obtain r where r: "getThermals Bun_spawn = Inr r"
    and t: "cpu_temp_c (stats r) = cpu_die ?t" "gpu_temp_c (stats r) = gpu_die ?t"
      "soc_temp_c (stats r) = soc_die ?t"
    unfolding assms(4) by blast
  have n: "\<not> applies \<longrightarrow>
          cpu_temp_c (stats r) = cpu_die primary \<and> gpu_temp_c (stats r) = gpu_die primary
          \<and> soc_temp_c (stats r) = soc_die primary"
    using t sensorFallback_not_applied [of primary "ok c" ?raw] assms(5) by auto
  have i: "applies \<longrightarrow>
          cpu_temp_c (stats r) = gpu_temp_c (stats r) \<and> gpu_temp_c (stats r) = soc_temp_c (stats r)"
    using t sensorFallback_identical [of primary "ok c" ?raw] assms(5) by auto
  have f: "applies \<and> JSON_parse ?raw = None \<longrightarrow>
          cpu_temp_c (stats r) = None \<and> gpu_temp_c (stats r) = None \<and> soc_temp_c (stats r) = None"
    using t sensorFallback_parse_failure [of ?raw primary "ok c"] assms(5) by auto
  have e: "\<forall>data temps e. applies \<and> JSON_parse ?raw = Some data
            \<and> (Object_values data = None \<or> Object_values data = Some []
                \<or> (Object_values data = Some temps \<and> Math_max_spread temps = Inl e)) \<longrightarrow>
          cpu_temp_c (stats r) = None \<and> gpu_temp_c (stats r) = None \<and> soc_temp_c (stats r) = None"
  proof (intro allI impI)
    fix data temps e
    assume h: "applies \<and> JSON_parse ?raw = Some data
            \<and> (Object_values data = None \<or> Object_values data = Some []
                \<or> (Object_values data = Some temps \<and> Math_max_spread temps = Inl e))"
    then have "?t = primary"
      by (auto simp: sensorFallback_def tryFallback_def)
    with t h assms(5) show "cpu_temp_c (stats r) = None \<and> gpu_temp_c (stats r) = None
        \<and> soc_temp_c (stats r) = None"
      by simp
  qed
  have g: "\<forall>data temps x. applies \<and> JSON_parse ?raw = Some data
            \<and> Object_values data = Some temps \<and> temps \<noteq> [] \<and> Math_max_spread temps = Inr x \<longrightarrow>
          cpu_temp_c (stats r) = Some x \<and> gpu_temp_c (stats r) = Some x \<and> soc_temp_c (stats r) = Some x"
  proof (intro allI impI)
    fix data temps x
    assume h: "applies \<and> JSON_parse ?raw = Some data
            \<and> Object_values data = Some temps \<and> temps \<noteq> [] \<and> Math_max_spread temps = Inr x"
    then have "?t = primary\<lparr> cpu_die := Some x, soc_die := Some x, gpu_die := Some x \<rparr>"
      using assms(5) by (simp add: sensorFallback_def tryFallback_def)
    with t show "cpu_temp_c (stats r) = Some x \<and> gpu_temp_c (stats r) = Some x
        \<and> soc_temp_c (stats r) = Some x"
      by simp
  qed
  have m: "\<forall>kvs xs. applies \<and> JSON_parse ?raw = Some (JObj kvs) \<and> kvs \<noteq> []
            \<and> map snd kvs = map (\<lambda>x. JNum (Finite x)) xs \<longrightarrow>
          cpu_temp_c (stats r) = Some (Finite (Max (set xs)))
          \<and> gpu_temp_c (stats r) = Some (Finite (Max (set xs)))
          \<and> soc_temp_c (stats r) = Some (Finite (Max (set xs)))"
  proof (intro allI impI)
    fix kvs xs
    assume h: "applies \<and> JSON_parse ?raw = Some (JObj kvs) \<and> kvs \<noteq> []
            \<and> map snd kvs = map (\<lambda>x. JNum (Finite x)) xs"
    then have "?t = primary\<lparr> cpu_die := Some (Finite (Max (set xs))),
        soc_die := Some (Finite (Max (set xs))), gpu_die := Some (Finite (Max (set xs))) \<rparr>"
      using assms(5) by (intro sensorFallback_numbers) auto
    with t show "cpu_temp_c (stats r) = Some (Finite (Max (set xs)))
          \<and> gpu_temp_c (stats r) = Some (Finite (Max (set xs)))
          \<and> soc_temp_c (stats r) = Some (Finite (Max (set xs)))"
      by simp
  qed
  show ?thesis
    by (intro exI [of _ r] conjI) (rule r n i f e g m)+
qed

text \<open>
  The theorem where the helper prints \<open>{"a":10,"b":22.5}\<close> and nothing on standard error:
  the three temperatures are 22.5. And where it prints \<open>{"a":{"toString":1}}\<close>: the value
  cannot be converted, \<open>Math.max\<close> throws, and the three temperatures stay null.
\<close>

theorem sensor_fallback_rule_witness:
  "(case getThermals (\<lambda>cmd. Inr \<lparr> exited = 0,
            stdout_text = Some (if cmd = m4temp_cmd then ''{\"a\":10,\"b\":22.5}'' else []),
            stderr_text = Some [] \<rparr>) of
     Inl e \<Rightarrow> False
   | Inr r \<Rightarrow> cpu_temp_c (stats r) = Some (Finite (45 / 2))
              \<and> gpu_temp_c (stats r) = Some (Finite (45 / 2))
              \<and> soc_temp_c (stats r) = Some (Finite (45 / 2)))
   \<and> (case getThermals (\<lambda>cmd. Inr \<lparr> exited = 0,
            stdout_text = Some (if cmd = m4temp_cmd then ''{\"a\":{\"toString\":1}}'' else []),
            stderr_text = Some [] \<rparr>) of
     Inl e \<Rightarrow> False
   | Inr r \<Rightarrow> cpu_temp_c (stats r) = None \<and> gpu_temp_c (stats r) = None
              \<and> soc_temp_c (stats r) = None)"
proof (rule conjI)
  let ?sp = "\<lambda>cmd. Inr \<lparr> exited = 0,
            stdout_text = Some (if cmd = m4temp_cmd then ''{\"a\":{\"toString\":1}}'' else []),
            stderr_text = Some [] \<rparr>"
  let ?data = "JObj [([97], JObj [(map code ''toString'', JNum (Finite 1))])]"
  have a: "run ?sp pmset_cmd 3000 = Inr \<lparr> ok = True, stdout = [], stderr = [] \<rparr>"
    by (simp add: run_def cmd_defs)
  have b: "run ?sp smc_cmd 8000 = Inr \<lparr> ok = True, stdout = [], stderr = [] \<rparr>"
    by (simp add: run_def cmd_defs)
  have c: "run ?sp m4temp_cmd 4000 = Inr \<lparr> ok = True, stdout = ''{\"a\":{\"toString\":1}}'', stderr = [] \<rparr>"
    by (simp add: run_def)
  have j: "JSON_parse ''{\"a\":{\"toString\":1}}'' = Some ?data"
    by (simp add: json_eval num_eval char_eval)
  have o: "Object_values ?data = Some [JObj [(map code ''toString'', JNum (Finite 1))]]"
    by simp
  have x: "Math_max_spread [JObj [(map code ''toString'', JNum (Finite 1))]] = Inl TypeError"
    by (simp add: Math_max_spread_def hasOwnProperty_def)
  from sensor_fallback_rule [OF a b c refl refl] obtain r where
      r: "getThermals ?sp = Inr r"
      and v: "\<forall>data temps e. (cpu_die (parsePowermetricsSMCTemps []) = None \<and> gpu_die (parsePowermetricsSMCTemps []) = None
                \<and> soc_die (parsePowermetricsSMCTemps []) = None)
            \<and> JSON_parse ''{\"a\":{\"toString\":1}}'' = Some data
            \<and> (Object_values data = None \<or> Object_values data = Some []
                \<or> (Object_values data = Some temps \<and> Math_max_spread temps = Inl e)) \<longrightarrow>
          cpu_temp_c (stats r) = None \<and> gpu_temp_c (stats r) = None \<and> soc_temp_c (stats r) = None"
    by auto
  from v [rule_format, of ?data "[JObj [(map code ''toString'', JNum (Finite 1))]]" TypeError]
  have "cpu_temp_c (stats r) = None \<and> gpu_temp_c (stats r) = None \<and> soc_temp_c (stats r) = None"
    by (simp only: j o x parsePowermetricsSMCTemps_empty) simp
  with r show "case getThermals ?sp of
     Inl e \<Rightarrow> False
   | Inr r \<Rightarrow> cpu_temp_c (stats r) = None \<and> gpu_temp_c (stats r) = None
              \<and> soc_temp_c (stats r) = None"
    by simp
next
  let ?sp = "\<lambda>cmd. Inr \<lparr> exited = 0,
            stdout_text = Some (if cmd = m4temp_cmd then ''{\"a\":10,\"b\":22.5}'' else []),
            stderr_text = Some [] \<rparr>"
  have a: "run ?sp pmset_cmd 3000 = Inr \<lparr> ok = True, stdout = [], stderr = [] \<rparr>"
    by (simp add: run_def cmd_defs)
  have b: "run ?sp smc_cmd 8000 = Inr \<lparr> ok = True, stdout = [], stderr = [] \<rparr>"
    by (simp add: run_def cmd_defs)
  have c: "run ?sp m4temp_cmd 4000 = Inr \<lparr> ok = True, stdout = ''{\"a\":10,\"b\":22.5}'', stderr = [] \<rparr>"
    by (simp add: run_def)
  have j: "JSON_parse ''{\"a\":10,\"b\":22.5}''
      = Some (JObj [([97], JNum (Finite 10)), ([98], JNum (Finite (45 / 2)))])"
    by (simp add: json_eval num_eval char_eval)
  have mx: "Max (set [10, 45 / 2 :: real]) = 45 / 2"
    by simp
  from sensor_fallback_rule [OF a b c refl refl] obtain r where
      r: "getThermals ?sp = Inr r"
      and v: "\<forall>kvs xs. (cpu_die (parsePowermetricsSMCTemps []) = None \<and> gpu_die (parsePowermetricsSMCTemps []) = None
                \<and> soc_die (parsePowermetricsSMCTemps []) = None)
            \<and> JSON_parse ''{\"a\":10,\"b\":22.5}'' = Some (JObj kvs) \<and> kvs \<noteq> []
            \<and> map snd kvs = map (\<lambda>x. JNum (Finite x)) xs \<longrightarrow>
          cpu_temp_c (stats r) = Some (Finite (Max (set xs)))
          \<and> gpu_temp_c (stats r) = Some (Finite (Max (set xs)))
          \<and> soc_temp_c (stats r) = Some (Finite (Max (set xs)))"
    by auto
  from v [rule_format, of "[([97], JNum (Finite 10)), ([98], JNum (Finite (45 / 2)))]" "[10, 45 / 2]"]
  have "cpu_temp_c (stats r) = Some (Finite (45 / 2))
          \<and> gpu_temp_c (stats r) = Some (Finite (45 / 2))
          \<and> soc_temp_c (stats r) = Some (Finite (45 / 2))"
    unfolding mx by (simp add: j parsePowermetricsSMCTemps_empty)
  with r show "case getThermals ?sp of
     Inl e \<Rightarrow> False
   | Inr r \<Rightarrow> cpu_temp_c (stats r) = Some (Finite (45 / 2))
              \<and> gpu_temp_c (stats r) = Some (Finite (45 / 2))
              \<and> soc_temp_c (stats r) = Some (Finite (45 / 2))"
    by simp
qed

text \<open>
  C3 as stated fails: the helper's standard output \<open>{"a":10,"b":22.5}\<close> parses as a
  non-empty mapping (of the keys a and b, the code units 97 and 98) and the helper exits
  with status zero, but it also writes a warning to standard error; the text parsed is
  the two together, the parse fails, and the three temperatures stay null.
\<close>

theorem sensor_fallback_counterexample:
  "JSON_parse ''{\"a\":10,\"b\":22.5}''
     = Some (JObj [([97], JNum (Finite 10)), ([98], JNum (Finite (45 / 2)))])
   \<and> (case getThermals (\<lambda>cmd. Inr \<lparr> exited = 0,
            stdout_text = Some (if cmd = m4temp_cmd then ''{\"a\":10,\"b\":22.5}'' else []),
            stderr_text = Some (if cmd = m4temp_cmd then ''warning: unused'' else []) \<rparr>) of
        Inl e \<Rightarrow> False
      | Inr r \<Rightarrow> m4_temp_ok (source (stats r))
                 \<and> cpu_temp_c (stats r) = None \<and> gpu_temp_c (stats r) = None
                 \<and> soc_temp_c (stats r) = None)"
proof -
  let ?sp = "\<lambda>cmd. Inr \<lparr> exited = 0,
            stdout_text = Some (if cmd = m4temp_cmd then ''{\"a\":10,\"b\":22.5}'' else []),
            stderr_text = Some (if cmd = m4temp_cmd then ''warning: unused'' else []) \<rparr>"
  have a: "run ?sp pmset_cmd 3000 = Inr \<lparr> ok = True, stdout = [], stderr = [] \<rparr>"
    by (simp add: run_def cmd_defs)
  have b: "run ?sp smc_cmd 8000 = Inr \<lparr> ok = True, stdout = [], stderr = [] \<rparr>"
    by (simp add: run_def cmd_defs)
  have c: "run ?sp m4temp_cmd 4000
      = Inr \<lparr> ok = True, stdout = ''{\"a\":10,\"b\":22.5}'', stderr = ''warning: unused'' \<rparr>"
    by (simp add: run_def)
  have j: "JSON_parse ''{\"a\":10,\"b\":22.5}''
      = Some (JObj [([97], JNum (Finite 10)), ([98], JNum (Finite (45 / 2)))])"
    by (simp add: json_eval num_eval char_eval)
  have k: "JSON_parse (''{\"a\":10,\"b\":22.5}'' @ ''warning: unused'') = None"
    by (simp add: json_eval num_eval char_eval)
  from getThermals_runs [OF a b c] obtain r where r: "getThermals ?sp = Inr r"
      and t: "cpu_temp_c (stats r) = None" "gpu_temp_c (stats r) = None" "soc_temp_c (stats r) = None"
      and s: "source (stats r) = \<lparr> pmset_ok = True, powermetrics_smc_ok = True, m4_temp_ok = True \<rparr>"
    using k by (auto simp: sensorFallback_parse_failure parsePowermetricsSMCTemps_empty)
  show ?thesis
    using j r t s by simp
qed

end
